theory Spec2Isabelle
  imports Complex_Main "HOL-Library.Product_Lexorder" "HOL-Library.AList" "HOL-Library.Multiset"
begin

section \<open>Python values: errors, indexing, strings\<close>

text \<open>
  Every exception the modelled methods can raise is a value of \<open>py_error\<close>; a method
  that may raise returns \<open>py_error + 'a\<close> (\<open>Inl\<close> is the exception).
  \<open>UsageError\<close> is the bare \<open>Exception\<close> that \<open>clear_timestamp\<close> raises.
\<close>

datatype py_error = IndexError | TypeError | KeyError | UsageError

fun bind_err :: "py_error + 'a \<Rightarrow> ('a \<Rightarrow> py_error + 'b) \<Rightarrow> py_error + 'b" where
  "bind_err (Inl e) f = Inl e"
| "bind_err (Inr x) f = f x"

text \<open>
  \<open>xs[i]\<close> in Python: a negative index counts from the end, an index out of range
  raises IndexError, and the index \<open>None\<close> raises TypeError. \<open>py_pos\<close> is the
  position that \<open>xs[i]\<close> reads.
\<close>

definition py_pos :: "'a list \<Rightarrow> int option \<Rightarrow> py_error + nat" where
  "py_pos xs io =
     (case io of
        None \<Rightarrow> Inl TypeError
      | Some i \<Rightarrow>
          if 0 \<le> i \<and> i < int (length xs) then Inr (nat i)
          else if i < 0 \<and> - int (length xs) \<le> i then Inr (nat (int (length xs) + i))
          else Inl IndexError)"

definition py_get :: "'a list \<Rightarrow> int option \<Rightarrow> py_error + 'a" where
  "py_get xs io = bind_err (py_pos xs io) (\<lambda>k. Inr (xs ! k))"

definition py_first :: "'a list \<Rightarrow> py_error + 'a" where
  "py_first xs = (case xs of [] \<Rightarrow> Inl IndexError | x # _ \<Rightarrow> Inr x)"

definition py_last :: "'a list \<Rightarrow> py_error + 'a" where
  "py_last xs = (if xs = [] then Inl IndexError else Inr (last xs))"

text \<open>
  \<open>str.split()\<close> with no argument: the words are the maximal runs of characters that
  are not whitespace. Texts are taken to be ASCII, where the whitespace characters of
  Python are the codes 9 to 13, 28 to 31 and 32.
\<close>

definition is_space :: "char \<Rightarrow> bool" where
  "is_space c = (let n = (of_char c :: nat) in n = 32 \<or> (9 \<le> n \<and> n \<le> 13) \<or> (28 \<le> n \<and> n \<le> 31))"

fun py_split_aux :: "string \<Rightarrow> string \<Rightarrow> string list" where
  "py_split_aux w [] = (if w = [] then [] else [rev w])"
| "py_split_aux w (c # cs) =
     (if is_space c then (if w = [] then py_split_aux [] cs else rev w # py_split_aux [] cs)
      else py_split_aux (c # w) cs)"

definition py_split :: "string \<Rightarrow> string list" where
  "py_split s = py_split_aux [] s"

text \<open>The decimal digits of a natural number, for the f-strings \<open>f"right {n}"\<close>.\<close>

fun str_nat :: "nat \<Rightarrow> string" where
  "str_nat n = (if n < 10 then [char_of (48 + n)] else str_nat (n div 10) @ [char_of (48 + n mod 10)])"

definition str_int :: "int \<Rightarrow> string" where
  "str_int i = (if i < 0 then CHR ''-'' # str_nat (nat (- i)) else str_nat (nat i))"

definition startswith :: "string \<Rightarrow> string \<Rightarrow> bool" where
  "startswith s p = (take (length p) s = p)"

text \<open>
  \<open>max(xs, key=f)\<close> on a non-empty list: the first element whose key is maximal.
\<close>

fun py_max_key :: "('a \<Rightarrow> 'k::linorder) \<Rightarrow> 'a \<Rightarrow> 'a list \<Rightarrow> 'a" where
  "py_max_key f b [] = b"
| "py_max_key f b (a # as) = py_max_key f (if f b < f a then a else b) as"

text \<open>
  Scores are Python floats; the embedding takes them as rationals, so that the
  arithmetic of the source is exact. \<open>round(x, 3)\<close> rounds to three decimals, a tie
  going to the even neighbour.
\<close>

definition round_half_even :: "rat \<Rightarrow> int" where
  "round_half_even x =
     (let f = \<lfloor>x\<rfloor>; d = x - of_int f
      in if d < 1 / 2 then f else if 1 / 2 < d then f + 1 else if even f then f else f + 1)"

definition round3 :: "rat \<Rightarrow> rat" where
  "round3 x = of_int (round_half_even (x * 1000)) / 1000"

section \<open>Units, States and Candidates\<close>

text \<open>
  \<open>SentenceChain\<close> is declared outside the files at hand; the code reads its
  \<open>chain_index\<close> and \<open>text\<close> and calls its \<open>next\<close> and \<open>prev\<close>.
\<close>

record sentence_chain =
  chain_index :: int
  chain_text :: string

text \<open>
  Modelled from the spec: \<open>SentenceChain.next(n, force_list=True)\<close> and
  \<open>SentenceChain.prev(n, force_list=True)\<close> are missing from the sources. The spec
  gives them as \<open>neighbors(unit, direction, n)\<close>, the ordered sequence of at most \<open>n\<close>
  neighbouring units, shorter at a boundary. The document is the ordered list of its
  chains.
\<close>

definition chain_next :: "sentence_chain list \<Rightarrow> sentence_chain \<Rightarrow> int \<Rightarrow> sentence_chain list" where
  "chain_next doc c n = take (nat n) (filter (\<lambda>d. chain_index c < chain_index d) doc)"

definition chain_prev :: "sentence_chain list \<Rightarrow> sentence_chain \<Rightarrow> int \<Rightarrow> sentence_chain list" where
  "chain_prev doc c n =
     (let ps = filter (\<lambda>d. chain_index d < chain_index c) doc in drop (length ps - nat n) ps)"

record state =
  chains :: "sentence_chain list"
  score :: rat
  actions :: "string list"
  timestamp :: int
  improvement_score :: rat

definition from_state :: "state \<Rightarrow> string option \<Rightarrow> state" where
  "from_state s action =
     \<lparr>chains = chains s, score = score s,
      actions = actions s @ (case action of None \<Rightarrow> [] | Some a \<Rightarrow> [a]),
      timestamp = timestamp s, improvement_score = improvement_score s\<rparr>"

definition state_text :: "state \<Rightarrow> string" where
  "state_text s = concat (map chain_text (chains s))"

definition state_first_index :: "state \<Rightarrow> py_error + int" where
  "state_first_index s = bind_err (py_first (chains s)) (\<lambda>c. Inr (chain_index c))"

definition state_last_index :: "state \<Rightarrow> py_error + int" where
  "state_last_index s = bind_err (py_last (chains s)) (\<lambda>c. Inr (chain_index c))"

text \<open>\<open>index_range\<close> is \<open>range(first, last + 1)\<close>: its elements, and its \<open>stop\<close>.\<close>

definition state_index_range :: "state \<Rightarrow> py_error + int list" where
  "state_index_range s =
     bind_err (state_first_index s) (\<lambda>a. bind_err (state_last_index s) (\<lambda>b. Inr [a..b]))"

record candidate =
  chain :: sentence_chain
  selected_state :: "int option"
  history :: "state list"
  expandable :: bool

text \<open>The relevance oracle \<open>evaluator.predict(chains, join=True)\<close> is a parameter \<open>ev\<close>.\<close>

type_synonym evaluator = "sentence_chain list \<Rightarrow> rat"

definition init_candidate :: "sentence_chain \<Rightarrow> rat \<Rightarrow> candidate" where
  "init_candidate c sc =
     \<lparr>chain = c, selected_state = Some (- 1),
      history = [\<lparr>chains = [c], score = sc, actions = [], timestamp = 0, improvement_score = 0\<rparr>],
      expandable = True\<rparr>"

definition context_of :: "candidate \<Rightarrow> py_error + state" where
  "context_of c = py_get (history c) (selected_state c)"

definition candidate_score :: "candidate \<Rightarrow> py_error + rat" where
  "candidate_score c = bind_err (context_of c) (\<lambda>s. Inr (score s))"

definition candidate_first_index :: "candidate \<Rightarrow> py_error + int" where
  "candidate_first_index c = bind_err (context_of c) state_first_index"

definition candidate_index_range :: "candidate \<Rightarrow> py_error + int list" where
  "candidate_index_range c = bind_err (context_of c) state_index_range"

text \<open>An assignment \<open>self.context.field = v\<close>: the selected State is updated in place.\<close>

definition update_context :: "(state \<Rightarrow> state) \<Rightarrow> candidate \<Rightarrow> py_error + candidate" where
  "update_context f c =
     bind_err (py_pos (history c) (selected_state c))
       (\<lambda>k. Inr (c\<lparr>history := (history c)[k := f (history c ! k)]\<rparr>))"

section \<open>Candidate selection: \<open>optimize\<close>\<close>

text \<open>
  \<open>optimize(stop_expansion, timestamp, constraints, threshold)\<close> returns the Candidate
  after the call and the value returned (\<open>None\<close> when no State passed the filters).
  The filters are computed first; then the selected State, if there is a selection,
  gets \<open>threshold\<close> as its improvement score (which reads \<open>self.context\<close> and may
  raise); then the first index of maximal improvement score is taken.
\<close>

definition optimize_filter :: "int option \<Rightarrow> int list option \<Rightarrow> state list \<Rightarrow> nat list" where
  "optimize_filter ts constraints h =
     (let temp = (case ts of
                    Some t \<Rightarrow> filter (\<lambda>i. timestamp (h ! i) = t) [0..<length h]
                  | None \<Rightarrow> [0..<length h])
      in case constraints of
           Some cs \<Rightarrow> filter (\<lambda>i. \<not> (\<exists>it \<in> set (chains (h ! i)). chain_index it \<in> set cs)) temp
         | None \<Rightarrow> temp)"

definition optimize ::
  "bool \<Rightarrow> int option \<Rightarrow> int list option \<Rightarrow> rat \<Rightarrow> candidate \<Rightarrow> py_error + candidate \<times> nat option" where
  "optimize stop_expansion ts constraints threshold c =
     (let temp = optimize_filter ts constraints (history c)
      in bind_err
           (if selected_state c \<noteq> None
            then update_context (\<lambda>s. s\<lparr>improvement_score := threshold\<rparr>) c else Inr c)
           (\<lambda>c1.
              case temp of
                [] \<Rightarrow> Inr (c1\<lparr>expandable := False\<rparr>, None)
              | i # is \<Rightarrow>
                  (let new_state = py_max_key (\<lambda>i. improvement_score (history c1 ! i)) i is;
                       c2 = (if stop_expansion \<and> selected_state c1 = Some (int new_state)
                             then c1\<lparr>expandable := False\<rparr> else c1)
                   in Inr (c2\<lparr>selected_state := Some (int new_state)\<rparr>, Some new_state))))"

section \<open>Candidate growth operations\<close>

text \<open>
  \<open>branch_from\<close> is \<open>None\<close> when the caller leaves it out: the selected State is
  taken then, with the sentinel \<open>-1\<close> resolved to the last position.
\<close>

definition branch_index :: "candidate \<Rightarrow> int option \<Rightarrow> int option" where
  "branch_index c branch_from =
     (case branch_from of
        Some b \<Rightarrow> Some b
      | None \<Rightarrow> (if selected_state c = Some (- 1) then Some (int (length (history c)) - 1)
                 else selected_state c))"

text \<open>
  The three growth operations differ in the action tag and in how the copied chains
  are extended; the rest is word for word the same, so it is written once: the copy of
  the branch-from State is appended, stamped, extended and scored by the oracle on the
  whole window, and its improvement score is set when the window has a word.
  \<open>self.history[branch_from]\<close> is read again after the append.
\<close>

definition grow ::
  "evaluator \<Rightarrow> string \<Rightarrow> (sentence_chain list \<Rightarrow> py_error + sentence_chain list) \<Rightarrow>
   int option \<Rightarrow> int \<Rightarrow> candidate \<Rightarrow> py_error + candidate" where
  "grow ev action ext branch_from ts c =
     (let b = branch_index c branch_from
      in bind_err (py_get (history c) b) (\<lambda>parent.
           let s1 = (from_state parent (Some action))\<lparr>timestamp := ts\<rparr>
           in bind_err (ext (chains s1)) (\<lambda>cs.
                let s2 = s1\<lparr>chains := cs, score := ev cs\<rparr>;
                    h2 = history c @ [s2];
                    added_length = length (py_split (state_text s2))
                in if 0 < added_length
                   then bind_err (py_get h2 b) (\<lambda>p.
                          Inr (c\<lparr>history := history c @
                                 [s2\<lparr>improvement_score :=
                                      round3 ((score s2 - score p) / of_nat added_length)\<rparr>]\<rparr>))
                   else Inr (c\<lparr>history := h2\<rparr>))))"

definition extend_right :: "sentence_chain list \<Rightarrow> int \<Rightarrow> sentence_chain list \<Rightarrow> py_error + sentence_chain list" where
  "extend_right doc n cs = bind_err (py_last cs) (\<lambda>l. Inr (cs @ chain_next doc l n))"

definition extend_left :: "sentence_chain list \<Rightarrow> int \<Rightarrow> sentence_chain list \<Rightarrow> py_error + sentence_chain list" where
  "extend_left doc n cs = bind_err (py_first cs) (\<lambda>f. Inr (chain_prev doc f n @ cs))"

definition add_right_context ::
  "evaluator \<Rightarrow> sentence_chain list \<Rightarrow> int \<Rightarrow> int option \<Rightarrow> int \<Rightarrow> candidate \<Rightarrow> py_error + candidate" where
  "add_right_context ev doc n branch_from ts c =
     (if n \<le> 0 \<or> \<not> expandable c then Inr c
      else grow ev (''right '' @ str_int n) (extend_right doc n) branch_from ts c)"

definition add_left_context ::
  "evaluator \<Rightarrow> sentence_chain list \<Rightarrow> int \<Rightarrow> int option \<Rightarrow> int \<Rightarrow> candidate \<Rightarrow> py_error + candidate" where
  "add_left_context ev doc n branch_from ts c =
     (if n \<le> 0 \<or> \<not> expandable c then Inr c
      else grow ev (''left '' @ str_int n) (extend_left doc n) branch_from ts c)"

definition add_bidirectional_context ::
  "evaluator \<Rightarrow> sentence_chain list \<Rightarrow> int \<Rightarrow> int option \<Rightarrow> int \<Rightarrow> candidate \<Rightarrow> py_error + candidate" where
  "add_bidirectional_context ev doc n branch_from ts c =
     (if n \<le> 0 \<or> \<not> expandable c then Inr c
      else grow ev (''bidirectional '' @ str_int n)
             (\<lambda>cs. bind_err (extend_right doc n cs) (extend_left doc n)) branch_from ts c)"

section \<open>Pruning the history\<close>

text \<open>
  \<open>clear_history(exceptions)\<close>. \<open>sorted(preserved)\<close> orders the preserved indices;
  the new selected index is the rank of the old one among them. With no selection
  (\<open>selected_state = None\<close>) the set holds \<open>None\<close>, which \<open>sorted\<close> cannot compare with
  an integer.
\<close>

definition clear_history :: "int list \<Rightarrow> candidate \<Rightarrow> py_error + candidate" where
  "clear_history exceptions c =
     (let had_latest_state = (selected_state c = Some (- 1));
          sel = (if had_latest_state then Some (int (length (history c)) - 1) else selected_state c)
      in case sel of
           None \<Rightarrow>
             (if exceptions = [] then Inr (c\<lparr>history := [], selected_state := Some 0\<rparr>)
              else Inl TypeError)
         | Some k \<Rightarrow>
             (let preserved = set (exceptions @ [k]);
                  h = map snd (filter (\<lambda>(i, s). int i \<in> preserved) (enumerate 0 (history c)))
              in if had_latest_state then Inr (c\<lparr>history := h, selected_state := Some (- 1)\<rparr>)
                 else
                   (let srt = sort (remdups (exceptions @ [k]));
                        old_to_new = map_of (zip srt [0..<length srt])
                    in Inr (c\<lparr>history := h,
                              selected_state :=
                                Some (case old_to_new k of Some v \<Rightarrow> int v | None \<Rightarrow> 0)\<rparr>))))"

text \<open>\<open>clear_timestamp(timestamp)\<close>; the usage error is raised before anything changes.\<close>

definition clear_timestamp :: "int \<Rightarrow> candidate \<Rightarrow> py_error + candidate" where
  "clear_timestamp ts c =
     bind_err (context_of c) (\<lambda>ctx.
       if timestamp ctx = ts then Inl UsageError
       else
         (let old_history = history c;
              h = filter (\<lambda>s. timestamp s \<noteq> ts) old_history
          in case selected_state c of
               None \<Rightarrow> Inl TypeError
             | Some k \<Rightarrow>
                 if k = - 1 then Inr (c\<lparr>history := h\<rparr>)
                 else
                   (let removed_before =
                          int (length (filter (\<lambda>i. timestamp (old_history ! i) = ts \<and> int i < k)
                                         [0..<length old_history]))
                    in Inr (c\<lparr>history := h,
                              selected_state :=
                                Some (max 0 (min (k - removed_before) (int (length h) - 1)))\<rparr>))))"

section \<open>Cluster operations\<close>

text \<open>
  A \<open>SelectedCluster\<close> is modelled by its \<open>candidates\<close> list, the only field the
  modelled methods change. A loop whose body may raise stops at the first exception.
\<close>

fun map_err :: "('a \<Rightarrow> py_error + 'b) \<Rightarrow> 'a list \<Rightarrow> py_error + 'b list" where
  "map_err f [] = Inr []"
| "map_err f (x # xs) = bind_err (f x) (\<lambda>y. bind_err (map_err f xs) (\<lambda>ys. Inr (y # ys)))"

text \<open>
  \<open>sorted(xs, key=k)\<close> and \<open>sorted(xs, key=k, reverse=True)\<close>: the keys are computed
  once, in list order; both sorts are stable, the reversed one too (elements with
  equal keys keep their original order).
\<close>

definition py_sorted :: "('a \<Rightarrow> py_error + 'k::linorder) \<Rightarrow> 'a list \<Rightarrow> py_error + 'a list" where
  "py_sorted k xs = bind_err (map_err k xs) (\<lambda>ks. Inr (map snd (sort_key fst (zip ks xs))))"

definition py_sorted_reverse :: "('a \<Rightarrow> py_error + 'k::linorder) \<Rightarrow> 'a list \<Rightarrow> py_error + 'a list" where
  "py_sorted_reverse k xs =
     bind_err (map_err k xs) (\<lambda>ks. Inr (map snd (rev (sort_key fst (rev (zip ks xs))))))"

fun remove_duplicates_loop ::
  "int list list \<Rightarrow> candidate list \<Rightarrow> candidate list \<Rightarrow> py_error + candidate list" where
  "remove_duplicates_loop seen keep [] = Inr keep"
| "remove_duplicates_loop seen keep (c # cs) =
     bind_err (candidate_index_range c) (\<lambda>temp.
       if temp \<notin> set seen then remove_duplicates_loop (temp # seen) (keep @ [c]) cs
       else remove_duplicates_loop seen keep cs)"

definition remove_duplicate_candidates :: "candidate list \<Rightarrow> py_error + candidate list" where
  "remove_duplicate_candidates cs = remove_duplicates_loop [] [] cs"

definition rescore_candidates :: "evaluator \<Rightarrow> candidate list \<Rightarrow> py_error + candidate list" where
  "rescore_candidates ev cs = map_err (update_context (\<lambda>s. s\<lparr>score := ev (chains s)\<rparr>)) cs"

definition rerank_key :: "candidate \<Rightarrow> py_error + rat \<times> int" where
  "rerank_key x = bind_err (candidate_score x) (\<lambda>sc. Inr (sc, 6666 - chain_index (chain x)))"

definition rerank_candidates :: "candidate list \<Rightarrow> py_error + candidate list" where
  "rerank_candidates cs = py_sorted_reverse rerank_key cs"

definition filter_candidates :: "rat \<Rightarrow> candidate list \<Rightarrow> py_error + candidate list" where
  "filter_candidates threshold cs =
     bind_err (map_err candidate_score cs)
       (\<lambda>scs. Inr (map snd (filter (\<lambda>(sc, c). threshold < sc) (zip scs cs))))"

text \<open>
  \<open>merge_candidates\<close>. \<open>index_range.start\<close> is the first chain index and
  \<open>index_range.stop\<close> one more than the last; \<open>x in range(a, b)\<close> is \<open>a \<le> x < b\<close>.
  \<open>xs[k:]\<close> never raises: a negative \<open>k\<close> counts from the end and is clipped.
\<close>

definition py_slice_from :: "'a list \<Rightarrow> int \<Rightarrow> 'a list" where
  "py_slice_from xs k = (if 0 \<le> k then drop (nat k) xs else drop (nat (int (length xs) + k)) xs)"

definition candidate_range_bounds :: "candidate \<Rightarrow> py_error + int \<times> int" where
  "candidate_range_bounds c =
     bind_err (context_of c) (\<lambda>s.
       bind_err (state_first_index s) (\<lambda>a. bind_err (state_last_index s) (\<lambda>b. Inr (a, b + 1))))"

definition merge_step :: "rat \<Rightarrow> candidate \<Rightarrow> candidate \<Rightarrow> py_error + candidate option \<times> candidate" where
  "merge_step threshold prev c =
     bind_err (candidate_score prev) (\<lambda>ps. bind_err (candidate_score c) (\<lambda>sc.
       if 0 \<le> (ps - threshold) * (sc - threshold) then
         bind_err (candidate_range_bounds c) (\<lambda>(cstart, cstop).
         bind_err (candidate_range_bounds prev) (\<lambda>(pstart, pstop).
           if pstart \<le> cstart \<and> cstart < pstop then
             bind_err (context_of c) (\<lambda>cctx.
               let extra_chains = cstop - pstop;
                   more = py_slice_from (chains cctx) (int (length (chains cctx)) - extra_chains)
               in bind_err (update_context (\<lambda>s. s\<lparr>chains := chains s @ more\<rparr>) prev)
                    (\<lambda>prev'. Inr (None, prev')))
           else if cstart = pstop then
             bind_err (context_of c) (\<lambda>cctx.
               bind_err (update_context (\<lambda>s. s\<lparr>chains := chains s @ chains cctx\<rparr>) prev)
                 (\<lambda>prev'. Inr (None, prev')))
           else Inr (Some prev, c)))
       else Inr (Some prev, c)))"

fun merge_scan :: "rat \<Rightarrow> candidate \<Rightarrow> candidate list \<Rightarrow> candidate list \<Rightarrow> py_error + candidate list" where
  "merge_scan threshold prev keep [] = Inr (keep @ [prev])"
| "merge_scan threshold prev keep (c # cs) =
     bind_err (merge_step threshold prev c) (\<lambda>(kept, prev').
       merge_scan threshold prev' (case kept of None \<Rightarrow> keep | Some k \<Rightarrow> keep @ [k]) cs)"

definition merge_candidates :: "evaluator \<Rightarrow> rat \<Rightarrow> candidate list \<Rightarrow> py_error + candidate list" where
  "merge_candidates ev threshold cs =
     bind_err (py_sorted candidate_first_index cs) (\<lambda>sorted_cs.
       case sorted_cs of
         [] \<Rightarrow> Inl IndexError
       | prev # rest \<Rightarrow>
           bind_err (merge_scan threshold prev [] rest) (\<lambda>keep.
             bind_err (rescore_candidates ev keep) rerank_candidates))"

section \<open>The arbitration engine: \<open>context_expansion_generator\<close>\<close>

text \<open>
  The bookkeeping of one round: the cluster's candidates (processed by position, and
  changed in place), \<open>seen_chains\<close>, \<open>current_round_forbids\<close> (a dictionary, kept as
  an association list in insertion order), \<open>marked_for_deletion\<close> and \<open>expanded\<close>.
\<close>

record round_state =
  cands :: "candidate list"
  seen_chains :: "int set"
  current_round_forbids :: "(int \<times> nat) list"
  marked_for_deletion :: "bool list"
  expanded :: bool

definition py_nth :: "'a list \<Rightarrow> nat \<Rightarrow> py_error + 'a" where
  "py_nth xs k = (if k < length xs then Inr (xs ! k) else Inl IndexError)"

definition forbids_owner :: "round_state \<Rightarrow> sentence_chain \<Rightarrow> py_error + nat" where
  "forbids_owner st f =
     (case map_of (current_round_forbids st) (chain_index f) of
        None \<Rightarrow> Inl KeyError | Some p \<Rightarrow> Inr p)"

definition set_forbids :: "sentence_chain \<Rightarrow> nat \<Rightarrow> round_state \<Rightarrow> round_state" where
  "set_forbids f pos st =
     st\<lparr>current_round_forbids := AList.update (chain_index f) pos (current_round_forbids st)\<rparr>"

definition mark_for_deletion :: "nat \<Rightarrow> round_state \<Rightarrow> round_state" where
  "mark_for_deletion p st = st\<lparr>marked_for_deletion := (marked_for_deletion st)[p := True]\<rparr>"

definition set_candidate :: "nat \<Rightarrow> candidate \<Rightarrow> round_state \<Rightarrow> round_state" where
  "set_candidate pos c st = st\<lparr>cands := (cands st)[pos := c]\<rparr>"

text \<open>\<open>[i for i, s in enumerate(history) if s.timestamp == timestamp][0]\<close>\<close>

definition first_with_timestamp :: "int \<Rightarrow> candidate \<Rightarrow> py_error + nat" where
  "first_with_timestamp ts c =
     py_first (filter (\<lambda>i. timestamp (history c ! i) = ts) [0..<length (history c)])"

text \<open>\<open>history.pop(selected_state)\<close>: the history without the entry at that index.\<close>

definition pop_selected :: "candidate \<Rightarrow> py_error + candidate" where
  "pop_selected c =
     bind_err (py_pos (history c) (selected_state c))
       (\<lambda>k. Inr (c\<lparr>history := take k (history c) @ drop (Suc k) (history c)\<rparr>))"

definition forbidden_chains :: "round_state \<Rightarrow> state \<Rightarrow> sentence_chain list" where
  "forbidden_chains st ctx = filter (\<lambda>c. chain_index c \<in> seen_chains st) (chains ctx)"

text \<open>
  One pass through the body of the inner \<open>while True\<close>: it ends the loop (\<open>Break\<close>)
  or goes round again (\<open>Again\<close>). With three or more forbidden chains no branch of
  the body applies, and the loop goes round again with nothing changed.
  In the branch for two chains the second rival's score is read only when the first
  comparison holds, as \<open>and\<close> does.
\<close>

datatype 'a loop_step = Break 'a | Again 'a

definition conflict_step :: "rat \<Rightarrow> int \<Rightarrow> nat \<Rightarrow> round_state \<Rightarrow> py_error + round_state loop_step" where
  "conflict_step threshold ts pos st =
     bind_err (py_nth (cands st) pos) (\<lambda>candidate.
     bind_err (context_of candidate) (\<lambda>ctx.
       case forbidden_chains st ctx of
         [] \<Rightarrow> Inr (Break st)
       | [f] \<Rightarrow>
           bind_err (forbids_owner st f) (\<lambda>owner.
           bind_err (py_nth (cands st) owner) (\<lambda>other_candidate.
           bind_err (candidate_score candidate) (\<lambda>sc.
           bind_err (candidate_score other_candidate) (\<lambda>other_sc.
             if other_sc < sc then Inr (Break (set_forbids f pos (mark_for_deletion owner st)))
             else
               bind_err (first_with_timestamp ts candidate) (\<lambda>initial_state_for_this_timestamp.
               bind_err (pop_selected candidate) (\<lambda>c1.
               bind_err (optimize False (Some ts) None threshold (c1\<lparr>selected_state := None\<rparr>))
                 (\<lambda>(c2, r).
                    let c3 = (if selected_state c2 = Some (int initial_state_for_this_timestamp)
                              then c2\<lparr>expandable := False\<rparr> else c2)
                    in Inr (Again (set_candidate pos c3 st)))))))))
       | [f1, f2] \<Rightarrow>
           bind_err (forbids_owner st f1) (\<lambda>owner1.
           bind_err (py_nth (cands st) owner1) (\<lambda>other1.
           bind_err (forbids_owner st f2) (\<lambda>owner2.
           bind_err (py_nth (cands st) owner2) (\<lambda>other2.
           bind_err (candidate_score candidate) (\<lambda>sc.
           bind_err (candidate_score other1) (\<lambda>sc1.
           bind_err (if sc1 < sc
                     then bind_err (candidate_score other2) (\<lambda>sc2. Inr (sc2 < sc))
                     else Inr False) (\<lambda>beats_both.
             if beats_both
             then Inr (Break (set_forbids f2 pos (set_forbids f1 pos
                         (mark_for_deletion owner2 (mark_for_deletion owner1 st)))))
             else
               bind_err (first_with_timestamp ts candidate) (\<lambda>k.
                 Inr (Break (set_candidate pos
                        (candidate\<lparr>selected_state := Some (int k), expandable := False\<rparr>) st))))))))))
       | _ \<Rightarrow> Inr (Again st)))"

text \<open>
  The inner loop, with fuel: \<open>None\<close> is a loop that has not ended when the fuel is
  used up.
\<close>

fun conflict_loop :: "nat \<Rightarrow> rat \<Rightarrow> int \<Rightarrow> nat \<Rightarrow> round_state \<Rightarrow> (py_error + round_state) option" where
  "conflict_loop 0 threshold ts pos st = None"
| "conflict_loop (Suc fuel) threshold ts pos st =
     (case conflict_step threshold ts pos st of
        Inl e \<Rightarrow> Some (Inl e)
      | Inr (Break st') \<Rightarrow> Some (Inr st')
      | Inr (Again st') \<Rightarrow> conflict_loop fuel threshold ts pos st')"

text \<open>
  The steps before the inner loop: the sentinel \<open>-1\<close> is resolved, the selected State
  is stamped with the round, the Candidate grows by the branch selection policy, and
  \<open>optimize\<close> chooses among the States of this round.
\<close>

definition expand_and_select ::
  "evaluator \<Rightarrow> sentence_chain list \<Rightarrow> rat \<Rightarrow> int \<Rightarrow> candidate \<Rightarrow> py_error + candidate" where
  "expand_and_select ev doc threshold ts candidate =
     (let c0 = (if selected_state candidate = Some (- 1)
                then candidate\<lparr>selected_state := Some (int (length (history candidate)) - 1)\<rparr>
                else candidate)
      in bind_err (update_context (\<lambda>s. s\<lparr>timestamp := ts\<rparr>) c0) (\<lambda>c1.
         bind_err (context_of c1) (\<lambda>ctx.
         bind_err
           (if actions ctx = [] \<or> startswith (last (actions ctx)) ''bidirectional'' then
              (let branch_point = selected_state c1
               in bind_err (add_left_context ev doc 1 None ts c1) (\<lambda>c2.
                  bind_err (add_right_context ev doc 1 branch_point ts c2) (\<lambda>c3.
                  add_bidirectional_context ev doc 1 branch_point ts c3)))
            else if startswith (last (actions ctx)) ''left'' then add_left_context ev doc 1 None ts c1
            else if startswith (last (actions ctx)) ''right'' then add_right_context ev doc 1 None ts c1
            else Inr c1)
           (\<lambda>c4. bind_err (optimize True (Some ts) None threshold c4) (\<lambda>(c5, r). Inr c5)))))"

text \<open>The two ways of claiming chains: a frozen Candidate claims all, the others what is free.\<close>

fun claim_all :: "nat \<Rightarrow> sentence_chain list \<Rightarrow> round_state \<Rightarrow> round_state" where
  "claim_all pos [] st = st"
| "claim_all pos (c # cs) st =
     claim_all pos cs
       (set_forbids c pos (st\<lparr>seen_chains := insert (chain_index c) (seen_chains st)\<rparr>))"

fun claim_unseen :: "nat \<Rightarrow> sentence_chain list \<Rightarrow> round_state \<Rightarrow> round_state" where
  "claim_unseen pos [] st = st"
| "claim_unseen pos (c # cs) st =
     claim_unseen pos cs
       (if chain_index c \<notin> seen_chains st
        then set_forbids c pos (st\<lparr>seen_chains := insert (chain_index c) (seen_chains st)\<rparr>)
        else st)"

text \<open>
  The last loop of the body: a Candidate further down that held one of the chains in
  the previous round is made to choose again, and is marked when it has no choice.
  \<open>if pos_to_forbid := prev_round_forbids.get(...)\<close> is false for a missing key and
  for position 0.
\<close>

fun enforce_previous ::
  "rat \<Rightarrow> (int \<times> nat) list \<Rightarrow> nat \<Rightarrow> sentence_chain list \<Rightarrow> round_state \<Rightarrow> py_error + round_state" where
  "enforce_previous threshold prev pos [] st = Inr st"
| "enforce_previous threshold prev pos (ch # chs) st =
     (case map_of prev (chain_index ch) of
        None \<Rightarrow> enforce_previous threshold prev pos chs st
      | Some pos_to_forbid \<Rightarrow>
          if pos_to_forbid \<noteq> 0 \<and> pos < pos_to_forbid then
            bind_err (py_nth (cands st) pos_to_forbid) (\<lambda>bad.
            bind_err (optimize False None (Some (map fst (current_round_forbids st))) threshold bad)
              (\<lambda>(bad', r).
                 let st1 = set_candidate pos_to_forbid bad' st;
                     st2 = (if r = None then mark_for_deletion pos_to_forbid st1 else st1)
                 in enforce_previous threshold prev pos chs st2))
          else enforce_previous threshold prev pos chs st)"

definition finish_candidate ::
  "rat \<Rightarrow> int \<Rightarrow> (int \<times> nat) list option \<Rightarrow> nat \<Rightarrow> round_state \<Rightarrow> py_error + round_state" where
  "finish_candidate threshold ts prev_round_forbids pos st =
     bind_err (py_nth (cands st) pos) (\<lambda>c.
     bind_err (clear_timestamp (ts - 1) c) (\<lambda>c1.
     bind_err (context_of c1) (\<lambda>ctx.
       let st1 = claim_unseen pos (chains ctx) (set_candidate pos c1 st)
       in bind_err (case prev_round_forbids of
                      None \<Rightarrow> Inr st1
                    | Some prev \<Rightarrow> enforce_previous threshold prev pos (chains ctx) st1)
            (\<lambda>st2. bind_err (py_nth (cands st2) pos)
               (\<lambda>c2. Inr (st2\<lparr>expanded := (expanded st2 \<or> expandable c2)\<rparr>))))))"

text \<open>The body of the loop over the candidates, for the Candidate at position \<open>pos\<close>.\<close>

definition process_candidate ::
  "nat \<Rightarrow> evaluator \<Rightarrow> sentence_chain list \<Rightarrow> rat \<Rightarrow> int \<Rightarrow> (int \<times> nat) list option \<Rightarrow>
   nat \<Rightarrow> round_state \<Rightarrow> (py_error + round_state) option" where
  "process_candidate fuel ev doc threshold ts prev_round_forbids pos st =
     (let candidate = cands st ! pos
      in if marked_for_deletion st ! pos then Some (Inr st)
         else if \<not> expandable candidate then
           Some (bind_err (context_of candidate) (\<lambda>ctx. Inr (claim_all pos (chains ctx) st)))
         else if chain_index (chain candidate) \<in> seen_chains st then
           Some (Inr (mark_for_deletion pos st))
         else
           (case expand_and_select ev doc threshold ts candidate of
              Inl e \<Rightarrow> Some (Inl e)
            | Inr c1 \<Rightarrow>
                (case conflict_loop fuel threshold ts pos (set_candidate pos c1 st) of
                   None \<Rightarrow> None
                 | Some (Inl e) \<Rightarrow> Some (Inl e)
                 | Some (Inr st1) \<Rightarrow>
                     Some (finish_candidate threshold ts prev_round_forbids pos st1))))"

fun process_candidates ::
  "nat \<Rightarrow> evaluator \<Rightarrow> sentence_chain list \<Rightarrow> rat \<Rightarrow> int \<Rightarrow> (int \<times> nat) list option \<Rightarrow>
   nat list \<Rightarrow> round_state \<Rightarrow> (py_error + round_state) option" where
  "process_candidates fuel ev doc threshold ts prev [] st = Some (Inr st)"
| "process_candidates fuel ev doc threshold ts prev (pos # rest) st =
     (case process_candidate fuel ev doc threshold ts prev pos st of
        None \<Rightarrow> None
      | Some (Inl e) \<Rightarrow> Some (Inl e)
      | Some (Inr st') \<Rightarrow> process_candidates fuel ev doc threshold ts prev rest st')"

text \<open>
  After the candidates: the marked ones are deleted, duplicates removed, the rest
  re-ranked, and the ownership map of the round is recorded for the next one.
  (\<open>print_candidates\<close>, which builds the snapshot that is yielded, is outside the
  files at hand; it is taken to read the cluster only.)
\<close>

definition initial_round_state :: "candidate list \<Rightarrow> round_state" where
  "initial_round_state cs =
     \<lparr>cands = cs, seen_chains = {}, current_round_forbids = [],
      marked_for_deletion = replicate (length cs) False, expanded = False\<rparr>"

definition surviving :: "round_state \<Rightarrow> candidate list" where
  "surviving st =
     map snd (filter (\<lambda>(i, c). \<not> marked_for_deletion st ! i) (enumerate 0 (cands st)))"

fun record_forbids :: "nat \<Rightarrow> candidate list \<Rightarrow> (int \<times> nat) list \<Rightarrow> py_error + (int \<times> nat) list" where
  "record_forbids pos [] m = Inr m"
| "record_forbids pos (c # cs) m =
     bind_err (context_of c) (\<lambda>ctx.
       record_forbids (Suc pos) cs (fold (\<lambda>ch. AList.update (chain_index ch) pos) (chains ctx) m))"

definition end_of_round :: "round_state \<Rightarrow> py_error + candidate list \<times> (int \<times> nat) list" where
  "end_of_round st =
     bind_err (remove_duplicate_candidates (surviving st)) (\<lambda>kept.
     bind_err (rerank_candidates kept) (\<lambda>ranked.
     bind_err (record_forbids 0 ranked []) (\<lambda>prev. Inr (ranked, prev))))"

text \<open>
  The outer \<open>while True\<close>, with fuel; the number of rounds executed is counted.
  Each inner loop gets \<open>loop_fuel\<close>. After the last round every surviving Candidate
  clears its history.
\<close>

fun expansion_rounds ::
  "nat \<Rightarrow> nat \<Rightarrow> evaluator \<Rightarrow> sentence_chain list \<Rightarrow> rat \<Rightarrow> int \<Rightarrow> (int \<times> nat) list option \<Rightarrow>
   nat \<Rightarrow> candidate list \<Rightarrow> (py_error + candidate list \<times> nat) option" where
  "expansion_rounds 0 loop_fuel ev doc threshold ts prev n cs = None"
| "expansion_rounds (Suc fuel) loop_fuel ev doc threshold ts prev n cs =
     (case process_candidates loop_fuel ev doc threshold ts prev [0..<length cs]
             (initial_round_state cs) of
        None \<Rightarrow> None
      | Some (Inl e) \<Rightarrow> Some (Inl e)
      | Some (Inr st) \<Rightarrow>
          (case end_of_round st of
             Inl e \<Rightarrow> Some (Inl e)
           | Inr (ranked, prev') \<Rightarrow>
               if \<not> expanded st then Some (Inr (ranked, Suc n))
               else expansion_rounds fuel loop_fuel ev doc threshold (ts + 1) (Some prev') (Suc n) ranked))"

definition context_expansion_generator ::
  "nat \<Rightarrow> evaluator \<Rightarrow> sentence_chain list \<Rightarrow> rat \<Rightarrow> candidate list \<Rightarrow>
   (py_error + candidate list \<times> nat) option" where
  "context_expansion_generator fuel ev doc threshold cs =
     (case expansion_rounds fuel fuel ev doc threshold 0 None 0 cs of
        None \<Rightarrow> None
      | Some (Inl e) \<Rightarrow> Some (Inl e)
      | Some (Inr (ranked, n)) \<Rightarrow>
          Some (bind_err (map_err (clear_history []) ranked) (\<lambda>final. Inr (final, n))))"

section \<open>Concrete inputs\<close>

text \<open>
  A document of five one-word chains, an oracle that scores a window by its length,
  and the seed Candidate of the chain in the middle.
\<close>

definition demo_doc :: "sentence_chain list" where
  "demo_doc = map (\<lambda>i. \<lparr>chain_index = i, chain_text = ''w ''\<rparr>) [0, 1, 2, 3, 4]"

definition demo_ev :: evaluator where
  "demo_ev cs = of_nat (length cs) - 1"

definition demo_candidate :: candidate where
  "demo_candidate = init_candidate \<lparr>chain_index = 2, chain_text = ''w ''\<rparr> 0"

text \<open>
  The history as \<open>optimize\<close> leaves it: the selected State, when the selection
  resolves, has the threshold as its improvement score.
\<close>

definition thresholded :: "rat \<Rightarrow> candidate \<Rightarrow> state list" where
  "thresholded thr c =
     (case py_pos (history c) (selected_state c) of
        Inr k \<Rightarrow> (history c)[k := (history c ! k)\<lparr>improvement_score := thr\<rparr>]
      | Inl e \<Rightarrow> history c)"

definition unit_at :: "int \<Rightarrow> sentence_chain" where
  "unit_at i = \<lparr>chain_index = i, chain_text = ''w ''\<rparr>"

definition demo_seed :: candidate where
  "demo_seed = (init_candidate (unit_at 2) 0)\<lparr>selected_state := Some 0\<rparr>"

text \<open>
  A Candidate anchored at unit 2 that holds the window 2 to 3 (second entry, selected,
  reached with an improvement score of 1/2); its seed State is the first entry.
\<close>

definition demo_grown :: candidate where
  "demo_grown =
     \<lparr>chain = unit_at 2, selected_state = Some 1,
      history = [\<lparr>chains = [unit_at 2], score = 0, actions = [], timestamp = 0,
                  improvement_score = 0\<rparr>,
                 \<lparr>chains = [unit_at 2, unit_at 3], score = 1, actions = [''right 1''],
                  timestamp = 0, improvement_score = 1 / 2\<rparr>],
      expandable = True\<rparr>"

text \<open>
  The order that \<open>rerank_candidates\<close> establishes: a higher score first, and among
  equal scores the lower anchor index first.
\<close>

definition ranks_before :: "candidate \<Rightarrow> candidate \<Rightarrow> bool" where
  "ranks_before a b =
     (case (candidate_score a, candidate_score b) of
        (Inr sa, Inr sb) \<Rightarrow>
           sb < sa \<or> (sa = sb \<and> chain_index (chain a) \<le> chain_index (chain b))
      | _ \<Rightarrow> False)"

text \<open>
  The invariants of the data model that \<open>merge_candidates\<close> relies on: the selected
  index of the Candidate resolves, and the selected State has at least one chain.
\<close>

definition resolves :: "candidate \<Rightarrow> bool" where
  "resolves c = (case context_of c of Inr s \<Rightarrow> chains s \<noteq> [] | Inl e \<Rightarrow> False)"

text \<open>Three seed Candidates, two of them with the same score.\<close>

definition demo_cluster :: "candidate list" where
  "demo_cluster = [init_candidate (unit_at 4) 1, init_candidate (unit_at 2) 5, init_candidate (unit_at 1) 1]"


text \<open>
  A Candidate anchored at unit 2 that has just grown on both sides, between two frozen
  Candidates that hold units 1 and 3 and score higher.
\<close>

definition squeeze_state :: round_state where
  "squeeze_state =
     \<lparr>cands =
        [(init_candidate (unit_at 1) 5)\<lparr>selected_state := Some 0, expandable := False\<rparr>,
         (init_candidate (unit_at 3) 4)\<lparr>selected_state := Some 0, expandable := False\<rparr>,
         \<lparr>chain = unit_at 2, selected_state = Some 1,
          history = [\<lparr>chains = [unit_at 2], score = 1, actions = [], timestamp = 0,
                      improvement_score = 1 / 100\<rparr>,
                     \<lparr>chains = [unit_at 1, unit_at 2, unit_at 3], score = 3,
                      actions = [''bidirectional 1''], timestamp = 0,
                      improvement_score = 667 / 1000\<rparr>],
          expandable = True\<rparr>],
      seen_chains = {1, 3}, current_round_forbids = [(1, 0), (3, 1)],
      marked_for_deletion = [False, False, False], expanded = False\<rparr>"

text \<open>
  A document of eight one-word chains. Three seed Candidates anchored at units 6, 1
  and 3, in the order of their seed scores 9, 8 and 5, with an oracle given by a table
  over the windows that the run scores.
\<close>

definition doc8 :: "sentence_chain list" where
  "doc8 = map unit_at [0, 1, 2, 3, 4, 5, 6, 7]"

definition selected_units :: "candidate \<Rightarrow> int list" where
  "selected_units c = (case context_of c of Inr s \<Rightarrow> map chain_index (chains s) | Inl e \<Rightarrow> [])"

definition overlap_ev :: evaluator where
  "overlap_ev cs =
     (let w = map chain_index cs in
      if w = [5, 6] then 20 else if w = [6, 7] then 10 else if w = [5, 6, 7] then 11
      else if w = [4, 5, 6] then 30 else if w = [3, 4, 5, 6] then 30
      else if w = [2, 3] then 7 else if w = [3, 4] then 10 else if w = [2, 3, 4] then 6
      else if w = [1, 2] then 15 else if w = [0, 1] then 8 else if w = [0, 1, 2] then 8
      else if w = [1, 2, 3] then 12
      else 0)"

definition overlap_cluster :: "candidate list" where
  "overlap_cluster = [init_candidate (unit_at 6) 9, init_candidate (unit_at 1) 8, init_candidate (unit_at 3) 5]"

text \<open>
  Six seed Candidates of the same document; \<open>merge_candidates\<close> with its default
  threshold 2 joins the four neighbours that score below the threshold into one
  Candidate holding units 3 to 6, and leaves the seeds at units 1 and 7.
  \<open>spin_state1\<close>, \<open>spin_state2\<close> and \<open>spin_candidate\<close> are the bookkeeping of the
  first round after the first and the second Candidate, and the third Candidate when
  it enters the inner loop.
\<close>

definition spin_ev :: evaluator where
  "spin_ev cs =
     (let w = map chain_index cs in
      if w = [1] then 9 else if w = [7] then 8 else if w = [3, 4, 5, 6] then 1
      else if w = [1, 2] then 20 else if w = [6, 7] then 20
      else if w = [2, 3, 4, 5, 6, 7] then 30
      else 0)"

definition spin_seeds :: "candidate list" where
  "spin_seeds = [init_candidate (unit_at 1) 9, init_candidate (unit_at 7) 8,
                 init_candidate (unit_at 3) 1, init_candidate (unit_at 4) 1,
                 init_candidate (unit_at 5) 1, init_candidate (unit_at 6) 1]"

definition spin_cluster :: "candidate list" where
  "spin_cluster =
     [init_candidate (unit_at 1) 9, init_candidate (unit_at 7) 8,
      \<lparr>chain = unit_at 3, selected_state = Some (- 1),
       history = [\<lparr>chains = [unit_at 3, unit_at 4, unit_at 5, unit_at 6], score = 1,
                   actions = [], timestamp = 0, improvement_score = 0\<rparr>],
       expandable = True\<rparr>]"

definition spin_state1 :: round_state where
  "spin_state1 =
     (case process_candidate 1 spin_ev doc8 (1 / 100) 0 None 0 (initial_round_state spin_cluster) of
        Some (Inr st) \<Rightarrow> st | _ \<Rightarrow> initial_round_state [])"

definition spin_state2 :: round_state where
  "spin_state2 =
     (case process_candidate 1 spin_ev doc8 (1 / 100) 0 None 1 spin_state1 of
        Some (Inr st) \<Rightarrow> st | _ \<Rightarrow> initial_round_state [])"

definition spin_candidate :: candidate where
  "spin_candidate =
     (case expand_and_select spin_ev doc8 (1 / 100) 0 (cands spin_state2 ! 2) of
        Inr c \<Rightarrow> c | Inl e \<Rightarrow> cands spin_state2 ! 2)"

text \<open>
  Four seed Candidates of the same document, anchored at units 2, 1, 6 and 3, in the
  order of their seed scores 12, 11, 9 and 5, with an oracle given by a table.
  \<open>pinch_first_round\<close> is the cluster and the ownership map after the first round;
  \<open>pinch_round\<close> is the bookkeeping of the second round when the first three
  Candidates are done, and \<open>pinch_before\<close> when the fourth (anchored at unit 3)
  enters the inner loop.
\<close>

definition pinch_ev :: evaluator where
  "pinch_ev cs =
     (let w = map chain_index cs in
      if w = [5, 6] then 20 else if w = [6, 7] then 10 else if w = [5, 6, 7] then 11
      else if w = [4, 5, 6] then 30 else if w = [3, 4, 5, 6] then 30
      else if w = [2, 3] then 7 else if w = [3, 4] then 10 else if w = [2, 3, 4] then 6
      else if w = [1, 2, 3] then 6
      else 0)"

definition pinch_cluster :: "candidate list" where
  "pinch_cluster = [init_candidate (unit_at 2) 12, init_candidate (unit_at 1) 11,
                    init_candidate (unit_at 6) 9, init_candidate (unit_at 3) 5]"

definition pinch_first_round :: "(candidate list \<times> (int \<times> nat) list) option" where
  "pinch_first_round =
     (case process_candidates 1 pinch_ev doc8 (1 / 100) 0 None [0, 1, 2, 3]
             (initial_round_state pinch_cluster) of
        Some (Inr st) \<Rightarrow> (case end_of_round st of Inr r \<Rightarrow> Some r | Inl e \<Rightarrow> None)
      | _ \<Rightarrow> None)"

definition pinch_round :: "round_state option" where
  "pinch_round =
     (case pinch_first_round of
        None \<Rightarrow> None
      | Some (ranked, prev) \<Rightarrow>
          (case process_candidates 1 pinch_ev doc8 (1 / 100) 1 (Some prev) [0, 1, 2]
                  (initial_round_state ranked) of
             Some (Inr st) \<Rightarrow> Some st
           | _ \<Rightarrow> None))"

definition pinch_before :: "round_state option" where
  "pinch_before =
     (case pinch_round of
        None \<Rightarrow> None
      | Some st \<Rightarrow>
          (case expand_and_select pinch_ev doc8 (1 / 100) 1 (cands st ! 3) of
             Inr c \<Rightarrow> Some (set_candidate 3 c st)
           | Inl e \<Rightarrow> None))"

section \<open>Properties of the Candidate operations\<close>

subsection \<open>Basic facts\<close>

lemma bind_err_Inr_iff: "bind_err m f = Inr y \<longleftrightarrow> (\<exists>x. m = Inr x \<and> f x = Inr y)"
  by (cases m) auto

lemma py_get_Inr_iff:
  "py_get xs io = Inr x \<longleftrightarrow> (\<exists>k. py_pos xs io = Inr k \<and> x = xs ! k)"
  by (auto simp: py_get_def bind_err_Inr_iff)

lemma py_pos_less: "py_pos xs io = Inr k \<Longrightarrow> k < length xs"
  by (auto simp: py_pos_def Let_def split: option.splits if_splits)

lemma py_pos_nonneg: "0 \<le> i \<Longrightarrow> py_pos xs (Some i) = Inr k \<longleftrightarrow> k = nat i \<and> nat i < length xs"
  by (auto simp: py_pos_def Let_def)

subsection \<open>Growth operations\<close>

lemma grow_frame:
  assumes "grow ev a ext b ts c = Inr c'"
  shows "\<exists>s. c' = c\<lparr>history := history c @ [s]\<rparr>"
  using assms
  by (auto simp: grow_def Let_def bind_err_Inr_iff split: if_splits)

lemma grow_total:
  assumes "py_get (history c) (branch_index c b) = Inr p" and "ext (chains p) = Inr cs"
  shows "\<exists>c'. grow ev a ext b ts c = Inr c'"
proof -
  from assms(1) obtain k where k: "py_pos (history c) (branch_index c b) = Inr k"
    by (auto simp: py_get_Inr_iff)
  have "\<exists>k'. py_pos (history c @ [s]) (branch_index c b) = Inr k'" for s
    using k by (auto simp: py_pos_def Let_def split: option.splits if_splits)
  then have "\<exists>q. py_get (history c @ [s]) (branch_index c b) = Inr q" for s
    by (simp add: py_get_Inr_iff)
  then show ?thesis
    using assms by (auto simp: grow_def Let_def from_state_def bind_err_Inr_iff)
qed

lemma grow_improvement:
  assumes "grow ev a ext b ts c = Inr c'"
    and "branch_index c b = Some i" and "0 \<le> i"
  shows "\<exists>cs. nat i < length (history c) \<and> ext (chains (history c ! nat i)) = Inr cs \<and>
     (let parent = history c ! nat i; new = last (history c'); wc = length (py_split (concat (map chain_text cs)))
      in chains new = cs \<and> score new = ev cs \<and> timestamp new = ts \<and> actions new = actions parent @ [a] \<and>
         improvement_score new =
           (if 0 < wc then round3 ((score new - score parent) / of_nat wc)
            else improvement_score parent))"
proof -
  from assms obtain cs where lt: "nat i < length (history c)"
    and cs: "ext (chains (history c ! nat i)) = Inr cs"
    by (auto simp: grow_def Let_def bind_err_Inr_iff py_get_Inr_iff py_pos_nonneg from_state_def)
  have get: "py_get (history c) (Some i) = Inr (history c ! nat i)"
    "py_get (history c @ [s]) (Some i) = Inr (history c ! nat i)" for s
    using lt assms(3) by (auto simp: py_get_def py_pos_def Let_def nth_append)
  show ?thesis
  proof (cases "py_split (concat (map chain_text cs)) = []")
    case True
    with assms cs get lt show ?thesis
      by (auto simp: grow_def Let_def from_state_def state_text_def)
  next
    case False
    with assms cs get lt show ?thesis
      by (auto simp: grow_def Let_def from_state_def state_text_def)
  qed
qed


lemma extend_right_total: "cs \<noteq> [] \<Longrightarrow> \<exists>cs'. extend_right doc n cs = Inr cs' \<and> cs' \<noteq> []"
  by (simp add: extend_right_def py_last_def)

lemma extend_left_total: "cs \<noteq> [] \<Longrightarrow> \<exists>cs'. extend_left doc n cs = Inr cs' \<and> cs' \<noteq> []"
  by (cases cs) (simp_all add: extend_left_def py_first_def)

lemma extend_both_total:
  "cs \<noteq> [] \<Longrightarrow> \<exists>cs'. bind_err (extend_right doc n cs) (extend_left doc n) = Inr cs'"
  using extend_right_total [of cs doc n] extend_left_total [of _ doc n]
  by (auto simp: bind_err_Inr_iff) blast

text \<open>
  Claim C6. For each of \<open>add_left_context\<close>, \<open>add_right_context\<close> and
  \<open>add_bidirectional_context\<close>: when \<open>n \<le> 0\<close> or the Candidate is not expandable the
  call returns the Candidate as it was. Otherwise a call that returns has appended
  exactly one State: the result is the old Candidate with one State added at the end
  of the history, so every earlier State (the branch-from parent among them) and every
  other field is as before; and the call does return whenever the branch-from index
  resolves to a State with at least one chain.
\<close>

theorem growth_appends_one_state:
  assumes "grow_op \<in> {add_left_context ev doc n b ts, add_right_context ev doc n b ts,
                      add_bidirectional_context ev doc n b ts}"
  shows "(n \<le> 0 \<or> \<not> expandable c \<longrightarrow> grow_op c = Inr c) \<and>
         (0 < n \<and> expandable c \<longrightarrow>
            (\<forall>c'. grow_op c = Inr c' \<longrightarrow> (\<exists>s. c' = c\<lparr>history := history c @ [s]\<rparr>)) \<and>
            (\<forall>p. py_get (history c) (branch_index c b) = Inr p \<and> chains p \<noteq> [] \<longrightarrow>
                 (\<exists>c'. grow_op c = Inr c')))"
proof (intro conjI impI allI)
  assume "n \<le> 0 \<or> \<not> expandable c"
  with assms show "grow_op c = Inr c"
    by (auto simp: add_left_context_def add_right_context_def add_bidirectional_context_def)
next
  fix c' assume "0 < n \<and> expandable c" and "grow_op c = Inr c'"
  with assms show "\<exists>s. c' = c\<lparr>history := history c @ [s]\<rparr>"
    by (auto simp: add_left_context_def add_right_context_def add_bidirectional_context_def
        dest: grow_frame)
next
  fix p assume ne: "0 < n \<and> expandable c"
    and p: "py_get (history c) (branch_index c b) = Inr p \<and> chains p \<noteq> []"
  from p obtain c1 c2 c3 where
    "extend_left doc n (chains p) = Inr c1" "extend_right doc n (chains p) = Inr c2"
    "bind_err (extend_right doc n (chains p)) (extend_left doc n) = Inr c3"
    using extend_left_total extend_right_total extend_both_total by metis
  with p have "\<exists>c'. grow ev a (extend_left doc n) b ts c = Inr c'"
    "\<exists>c'. grow ev a (extend_right doc n) b ts c = Inr c'"
    "\<exists>c'. grow ev a (\<lambda>cs. bind_err (extend_right doc n cs) (extend_left doc n)) b ts c = Inr c'" for a
    by (auto intro: grow_total)
  with assms ne show "\<exists>c'. grow_op c = Inr c'"
    by (auto simp: add_left_context_def add_right_context_def add_bidirectional_context_def)
qed

theorem growth_appends_one_state_witness:
  "\<exists>c' s. add_right_context demo_ev demo_doc 1 None 0 demo_candidate = Inr c' \<and>
     c' = demo_candidate\<lparr>history := history demo_candidate @ [s]\<rparr>"
proof -
  have pre: "(0::int) < 1 \<and> expandable demo_candidate"
    by (simp add: demo_candidate_def init_candidate_def)
  have res: "py_get (history demo_candidate) (branch_index demo_candidate None)
               = Inr (history demo_candidate ! 0) \<and> chains (history demo_candidate ! 0) \<noteq> []"
    by (simp add: demo_candidate_def init_candidate_def branch_index_def py_get_def py_pos_def)
  note inst = growth_appends_one_state [of "add_right_context demo_ev demo_doc 1 None 0"
      demo_ev demo_doc 1 None 0 demo_candidate]
  from inst pre res obtain c' where "add_right_context demo_ev demo_doc 1 None 0 demo_candidate = Inr c'"
    by blast
  moreover from this inst pre obtain s where "c' = demo_candidate\<lparr>history := history demo_candidate @ [s]\<rparr>"
    by blast
  ultimately show ?thesis by blast
qed

text \<open>
  Claim C7, amended. For a growth operation that appends a State, branching from the
  selected State or from a non-negative index: the new State's score is the oracle's
  value on the whole new window, and when the window has at least one word its
  improvement score is (new score minus the parent's score) divided by the word count
  of the whole new window, rounded to three decimals; when the window has no word, it
  is the improvement score copied from the parent.
\<close>

theorem growth_improvement_density_rounded:
  assumes "(grow_op, ext) \<in> {(add_left_context ev doc n b ts, extend_left doc n),
             (add_right_context ev doc n b ts, extend_right doc n),
             (add_bidirectional_context ev doc n b ts,
              \<lambda>cs. bind_err (extend_right doc n cs) (extend_left doc n))}"
    and "0 < n" and "expandable c"
    and "branch_index c b = Some i" and "0 \<le> i"
    and "grow_op c = Inr c'"
  shows "nat i < length (history c) \<and>
     (let parent = history c ! nat i; new = last (history c');
          wc = length (py_split (state_text new))
      in ext (chains parent) = Inr (chains new) \<and> score new = ev (chains new) \<and>
         improvement_score new =
           (if 0 < wc then round3 ((score new - score parent) / of_nat wc)
            else improvement_score parent))"
proof -
  from assms obtain a where "grow ev a ext b ts c = Inr c'"
    by (auto simp: add_left_context_def add_right_context_def add_bidirectional_context_def)
  from grow_improvement [OF this assms(4,5)] show ?thesis
    by (auto simp: Let_def state_text_def)
qed

theorem growth_improvement_density_rounded_witness:
  "\<exists>c'. add_bidirectional_context demo_ev demo_doc 1 None 0 demo_candidate = Inr c' \<and>
     improvement_score (last (history c')) =
       (if 0 < length (py_split (state_text (last (history c'))))
        then round3 ((score (last (history c')) - score (history demo_candidate ! 0))
               / of_nat (length (py_split (state_text (last (history c'))))))
        else improvement_score (history demo_candidate ! 0))"
proof -
  have pre: "(0::int) < 1" "expandable demo_candidate"
    "branch_index demo_candidate None = Some 0" "(0::int) \<le> 0"
    by (simp_all add: demo_candidate_def init_candidate_def branch_index_def)
  have "case add_bidirectional_context demo_ev demo_doc 1 None 0 demo_candidate of
          Inl e \<Rightarrow> False | Inr c' \<Rightarrow> True"
    by code_simp
  then obtain c' where c': "add_bidirectional_context demo_ev demo_doc 1 None 0 demo_candidate = Inr c'"
    by (cases "add_bidirectional_context demo_ev demo_doc 1 None 0 demo_candidate") simp_all
  have "(add_bidirectional_context demo_ev demo_doc 1 None 0,
         \<lambda>cs. bind_err (extend_right demo_doc 1 cs) (extend_left demo_doc 1))
        \<in> {(add_left_context demo_ev demo_doc 1 None 0, extend_left demo_doc 1),
           (add_right_context demo_ev demo_doc 1 None 0, extend_right demo_doc 1),
           (add_bidirectional_context demo_ev demo_doc 1 None 0,
            \<lambda>cs. bind_err (extend_right demo_doc 1 cs) (extend_left demo_doc 1))}"
    by simp
  from growth_improvement_density_rounded [OF this pre(1,2,3,4) c'] c' show ?thesis
    by (auto simp: Let_def)
qed

text \<open>
  The claim as it was stated, without the rounding, fails: growing the seed Candidate
  on both sides gives a window of three words and a score gain of 2, and the stored
  improvement score is 0.667, not 2/3.
\<close>

theorem growth_improvement_density_counterexample:
  "case add_bidirectional_context demo_ev demo_doc 1 None 0 demo_candidate of
     Inl e \<Rightarrow> False
   | Inr c' \<Rightarrow>
       0 < length (py_split (state_text (last (history c')))) \<and>
       improvement_score (last (history c')) \<noteq>
         (score (last (history c')) - score (history demo_candidate ! 0))
           / of_nat (length (py_split (state_text (last (history c')))))"
  by code_simp

subsection \<open>Selection\<close>

lemma py_max_key_first:
  "\<exists>pre post. b # as = pre @ py_max_key f b as # post \<and>
     (\<forall>x \<in> set pre. f x < f (py_max_key f b as)) \<and>
     (\<forall>x \<in> set post. f x \<le> f (py_max_key f b as))"
proof (induction as arbitrary: b)
  case Nil
  have "[b] = [] @ b # [] \<and> (\<forall>x \<in> set []. f x < f b) \<and> (\<forall>x \<in> set []. f x \<le> f b)" by simp
  then show ?case unfolding py_max_key.simps by blast
next
  case (Cons a as)
  show ?case
  proof (cases "f b < f a")
    case True
    define r where "r = py_max_key f a as"
    from True have r: "py_max_key f b (a # as) = r" by (simp add: r_def)
    from Cons.IH [of a] obtain pre post where d: "a # as = pre @ r # post"
      and lo: "\<forall>x \<in> set pre. f x < f r" and hi: "\<forall>x \<in> set post. f x \<le> f r"
      unfolding r_def by blast
    have "f a \<le> f r"
    proof (cases pre)
      case Nil with d show ?thesis by simp
    next
      case (Cons p ps) with d lo show ?thesis by auto
    qed
    with True have "f b < f r" by simp
    with d lo hi have "b # a # as = (b # pre) @ r # post \<and>
       (\<forall>x \<in> set (b # pre). f x < f r) \<and> (\<forall>x \<in> set post. f x \<le> f r)"
      by simp
    then show ?thesis unfolding r by blast
  next
    case False
    define r where "r = py_max_key f b as"
    from False have r: "py_max_key f b (a # as) = r" by (simp add: r_def)
    from Cons.IH [of b] obtain pre post where d: "b # as = pre @ r # post"
      and lo: "\<forall>x \<in> set pre. f x < f r" and hi: "\<forall>x \<in> set post. f x \<le> f r"
      unfolding r_def by blast
    show ?thesis
    proof (cases pre)
      case Nil
      with d have "r = b" "post = as" by simp_all
      with False hi have "b # a # as = [] @ r # (a # as) \<and>
         (\<forall>x \<in> set []. f x < f r) \<and> (\<forall>x \<in> set (a # as). f x \<le> f r)"
        by auto
      then show ?thesis unfolding r by blast
    next
      case (Cons p ps)
      with d have p: "p = b" and as: "as = ps @ r # post" by simp_all
      from lo Cons p have "f b < f r" by simp
      with False have "f a < f r" by simp
      with lo hi Cons p as have "b # a # as = (b # a # ps) @ r # post \<and>
         (\<forall>x \<in> set (b # a # ps). f x < f r) \<and> (\<forall>x \<in> set post. f x \<le> f r)"
        by auto
      then show ?thesis unfolding r by blast
    qed
  qed
qed

lemma py_max_key_mem: "py_max_key f b as \<in> set (b # as)"
  using py_max_key_first [of b as f] by (metis in_set_conv_decomp)

lemma py_max_key_max: "x \<in> set (b # as) \<Longrightarrow> f x \<le> f (py_max_key f b as)"
  using py_max_key_first [of b as f]
  by (metis Un_iff insert_iff less_imp_le list.simps(15) order_refl set_append)

lemma optimize_filter_sorted: "sorted_wrt (<) (optimize_filter ts cons h)"
  by (auto simp: optimize_filter_def Let_def sorted_wrt_filter split: option.splits)

lemma optimize_filter_less: "i \<in> set (optimize_filter ts cons h) \<Longrightarrow> i < length h"
  by (auto simp: optimize_filter_def Let_def split: option.splits)

text \<open>The first maximal element of a strictly increasing list is a given element \<open>j\<close> when
  nothing before \<open>j\<close> reaches its key and nothing after exceeds it.\<close>

lemma py_max_key_retained:
  assumes srt: "sorted_wrt (<) (b # as)" and j: "j \<in> set (b # as)"
    and before: "\<forall>i \<in> set (b # as). i < j \<longrightarrow> f i < f j"
    and after: "\<forall>i \<in> set (b # as). j < i \<longrightarrow> f i \<le> f j"
  shows "py_max_key f b as = (j::nat)"
proof -
  let ?r = "py_max_key f b as"
  from py_max_key_first [of b as f] obtain pre post where d: "b # as = pre @ ?r # post"
    and lo: "\<forall>x \<in> set pre. f x < f ?r" and hi: "\<forall>x \<in> set post. f x \<le> f ?r"
    by blast
  from srt d have ord: "\<forall>x \<in> set pre. x < ?r" "\<forall>x \<in> set post. ?r < x"
    by (simp_all add: sorted_wrt_append)
  have rmem: "?r \<in> set (b # as)" by (rule py_max_key_mem)
  have ge: "f j \<le> f ?r" using j by (rule py_max_key_max)
  show ?thesis
  proof (rule ccontr)
    assume ne: "?r \<noteq> j"
    from j d ne have "j \<in> set pre \<or> j \<in> set post" by auto
    then show False
    proof
      assume "j \<in> set pre"
      with ord lo have "j < ?r" "f j < f ?r" by auto
      with after rmem show False by fastforce
    next
      assume "j \<in> set post"
      with ord have "?r < j" by auto
      with before rmem have "f ?r < f j" by blast
      with ge show False by simp
    qed
  qed
qed

lemma optimize_threshold_step:
  assumes "(if selected_state c \<noteq> None
            then update_context (\<lambda>s. s\<lparr>improvement_score := thr\<rparr>) c else Inr c) = Inr c1"
  shows "c1 = c\<lparr>history := thresholded thr c\<rparr>"
proof (cases "selected_state c")
  case None
  with assms show ?thesis by (simp add: thresholded_def py_pos_def)
next
  case (Some i)
  with assms show ?thesis
    by (auto simp: update_context_def thresholded_def bind_err_Inr_iff)
qed

lemma optimize_Inr:
  assumes "optimize stop ts cons thr c = Inr (c', r)"
  shows "history c' = thresholded thr c \<and> chain c' = chain c \<and>
    (case optimize_filter ts cons (history c) of
       [] \<Rightarrow> r = None \<and> \<not> expandable c' \<and> selected_state c' = selected_state c
     | i # is \<Rightarrow>
         r = Some (py_max_key (\<lambda>i. improvement_score (thresholded thr c ! i)) i is) \<and>
         selected_state c' = map_option int r \<and>
         (expandable c' \<longleftrightarrow> expandable c \<and> \<not> (stop \<and> selected_state c = map_option int r)))"
proof -
  define step where "step = (if selected_state c \<noteq> None
          then update_context (\<lambda>s. s\<lparr>improvement_score := thr\<rparr>) c else Inr c)"
  define c1 where "c1 = c\<lparr>history := thresholded thr c\<rparr>"
  from assms have "\<exists>x. step = Inr x"
    unfolding optimize_def Let_def step_def by (cases step) (simp_all add: step_def)
  then obtain x where x: "step = Inr x" ..
  then have step: "step = Inr c1"
    unfolding c1_def step_def by (simp add: optimize_threshold_step)
  show ?thesis
  proof (cases "optimize_filter ts cons (history c)")
    case Nil
    with assms step have "(c', r) = (c1\<lparr>expandable := False\<rparr>, None)"
      unfolding optimize_def Let_def step_def [symmetric] by simp
    then have "c' = c1\<lparr>expandable := False\<rparr>" "r = None" by simp_all
    with Nil show ?thesis by (simp add: c1_def)
  next
    case (Cons i "is")
    define k where "k = py_max_key (\<lambda>i. improvement_score (thresholded thr c ! i)) i is"
    have hk: "py_max_key (\<lambda>i. improvement_score (history c1 ! i)) i is = k"
      by (simp add: c1_def k_def)
    from assms step Cons have
      "(c', r) = ((if stop \<and> selected_state c1 = Some (int k) then c1\<lparr>expandable := False\<rparr> else c1)
                    \<lparr>selected_state := Some (int k)\<rparr>, Some k)"
      unfolding optimize_def Let_def step_def [symmetric] by (simp add: hk)
    then have "c' = (if stop \<and> selected_state c1 = Some (int k) then c1\<lparr>expandable := False\<rparr> else c1)
                    \<lparr>selected_state := Some (int k)\<rparr>" "r = Some k" by simp_all
    with Cons show ?thesis by (simp add: c1_def k_def [symmetric])
  qed
qed

lemma optimize_total:
  assumes "selected_state c = None \<or> (\<exists>s. context_of c = Inr s)"
  shows "\<exists>c' r. optimize stop ts cons thr c = Inr (c', r)"
proof -
  have "\<exists>c1. (if selected_state c \<noteq> None
          then update_context (\<lambda>s. s\<lparr>improvement_score := thr\<rparr>) c else Inr c) = Inr c1"
  proof (cases "selected_state c")
    case None
    then show ?thesis by simp
  next
    case (Some i)
    with assms obtain k where "py_pos (history c) (Some i) = Inr k"
      by (auto simp: context_of_def py_get_Inr_iff)
    with Some show ?thesis by (simp add: update_context_def)
  qed
  then obtain c1 where "(if selected_state c \<noteq> None
          then update_context (\<lambda>s. s\<lparr>improvement_score := thr\<rparr>) c else Inr c) = Inr c1" ..
  then show ?thesis
    by (cases "optimize_filter ts cons (history c)") (simp_all add: optimize_def Let_def)
qed

text \<open>
  Claim C3, amended. \<open>optimize\<close> returns whenever the Candidate has no selection or
  its selection resolves. When it returns: the selected State has got the threshold
  as its improvement score and the history is otherwise as before; if no State passes
  the filters, no selection is returned, the Candidate is not expandable and its
  selection is as it was; otherwise the returned index is the new selection, it passed
  the filters and has maximal improvement score among the States that did, and the
  Candidate stays expandable exactly when it was and it is not the case that
  \<open>stop_expansion\<close> was asked for and the returned index is the stored old
  selection. The selected State is retained when it passes the filters itself, no
  filtered State before it reaches the threshold and no filtered State after it
  exceeds the threshold.
\<close>

theorem optimize_selection:
  "((selected_state c = None \<or> (\<exists>s. context_of c = Inr s)) \<longrightarrow>
      (\<exists>c' r. optimize stop ts cons thr c = Inr (c', r))) \<and>
   (\<forall>c' r. optimize stop ts cons thr c = Inr (c', r) \<longrightarrow>
      history c' = thresholded thr c \<and>
      (optimize_filter ts cons (history c) = [] \<longrightarrow>
         r = None \<and> \<not> expandable c' \<and> selected_state c' = selected_state c) \<and>
      (optimize_filter ts cons (history c) \<noteq> [] \<longrightarrow>
         (\<exists>k. r = Some k \<and> selected_state c' = Some (int k) \<and>
              k \<in> set (optimize_filter ts cons (history c)) \<and>
              (\<forall>i \<in> set (optimize_filter ts cons (history c)).
                  improvement_score (history c' ! i) \<le> improvement_score (history c' ! k)) \<and>
              (expandable c' \<longleftrightarrow> expandable c \<and> \<not> (stop \<and> selected_state c = Some (int k))))) \<and>
      (\<forall>j. selected_state c = Some (int j) \<and> j \<in> set (optimize_filter ts cons (history c)) \<and>
           (\<forall>i \<in> set (optimize_filter ts cons (history c)).
               (i < j \<longrightarrow> improvement_score (history c ! i) < thr) \<and>
               (j < i \<longrightarrow> improvement_score (history c ! i) \<le> thr)) \<longrightarrow>
           r = Some j))"
proof (intro conjI)
  show "(selected_state c = None \<or> (\<exists>s. context_of c = Inr s)) \<longrightarrow>
      (\<exists>c' r. optimize stop ts cons thr c = Inr (c', r))"
    by (rule impI) (rule optimize_total)
next
  show "\<forall>c' r. optimize stop ts cons thr c = Inr (c', r) \<longrightarrow>
      history c' = thresholded thr c \<and>
      (optimize_filter ts cons (history c) = [] \<longrightarrow>
         r = None \<and> \<not> expandable c' \<and> selected_state c' = selected_state c) \<and>
      (optimize_filter ts cons (history c) \<noteq> [] \<longrightarrow>
         (\<exists>k. r = Some k \<and> selected_state c' = Some (int k) \<and>
              k \<in> set (optimize_filter ts cons (history c)) \<and>
              (\<forall>i \<in> set (optimize_filter ts cons (history c)).
                  improvement_score (history c' ! i) \<le> improvement_score (history c' ! k)) \<and>
              (expandable c' \<longleftrightarrow> expandable c \<and> \<not> (stop \<and> selected_state c = Some (int k))))) \<and>
      (\<forall>j. selected_state c = Some (int j) \<and> j \<in> set (optimize_filter ts cons (history c)) \<and>
           (\<forall>i \<in> set (optimize_filter ts cons (history c)).
               (i < j \<longrightarrow> improvement_score (history c ! i) < thr) \<and>
               (j < i \<longrightarrow> improvement_score (history c ! i) \<le> thr)) \<longrightarrow>
           r = Some j)"
  proof (intro allI impI)
    fix c' r assume res: "optimize stop ts cons thr c = Inr (c', r)"
    let ?f = "\<lambda>i. improvement_score (thresholded thr c ! i)"
    let ?temp = "optimize_filter ts cons (history c)"
    note inr = optimize_Inr [OF res]
    have p1: "history c' = thresholded thr c" using inr by simp
    have p2: "?temp = [] \<longrightarrow> r = None \<and> \<not> expandable c' \<and> selected_state c' = selected_state c"
      using inr by auto
    have p3: "?temp \<noteq> [] \<longrightarrow>
         (\<exists>k. r = Some k \<and> selected_state c' = Some (int k) \<and> k \<in> set ?temp \<and>
              (\<forall>i \<in> set ?temp. improvement_score (history c' ! i) \<le> improvement_score (history c' ! k)) \<and>
              (expandable c' \<longleftrightarrow> expandable c \<and> \<not> (stop \<and> selected_state c = Some (int k))))"
    proof
      assume "?temp \<noteq> []"
      then obtain i "is" where t: "?temp = i # is" by (cases ?temp) auto
      define k where "k = py_max_key ?f i is"
      from inr t have r: "r = Some k" and sel: "selected_state c' = Some (int k)"
        and ex: "expandable c' \<longleftrightarrow> expandable c \<and> \<not> (stop \<and> selected_state c = Some (int k))"
        by (simp_all add: k_def)
      have mem: "k \<in> set (i # is)" unfolding k_def by (rule py_max_key_mem)
      have mx: "\<forall>x \<in> set (i # is). ?f x \<le> ?f k"
        unfolding k_def using py_max_key_max [of _ i "is" ?f] by blast
      from r sel ex mem mx show "\<exists>k. r = Some k \<and> selected_state c' = Some (int k) \<and> k \<in> set ?temp \<and>
              (\<forall>i \<in> set ?temp. improvement_score (history c' ! i) \<le> improvement_score (history c' ! k)) \<and>
              (expandable c' \<longleftrightarrow> expandable c \<and> \<not> (stop \<and> selected_state c = Some (int k)))"
        unfolding p1 t by blast
    qed
    have p4: "\<forall>j. selected_state c = Some (int j) \<and> j \<in> set ?temp \<and>
           (\<forall>i \<in> set ?temp.
               (i < j \<longrightarrow> improvement_score (history c ! i) < thr) \<and>
               (j < i \<longrightarrow> improvement_score (history c ! i) \<le> thr)) \<longrightarrow>
           r = Some j"
    proof (intro allI impI, elim conjE)
      fix j
      assume sj: "selected_state c = Some (int j)" and jm: "j \<in> set ?temp"
        and bounds: "\<forall>i \<in> set ?temp.
               (i < j \<longrightarrow> improvement_score (history c ! i) < thr) \<and>
               (j < i \<longrightarrow> improvement_score (history c ! i) \<le> thr)"
      from jm obtain i "is" where t: "?temp = i # is" by (cases ?temp) auto
      from jm have lt: "j < length (history c)" by (rule optimize_filter_less)
      with sj have th: "thresholded thr c = (history c)[j := (history c ! j)\<lparr>improvement_score := thr\<rparr>]"
        by (simp add: thresholded_def py_pos_def)
      from lt have fj: "?f j = thr" unfolding th by simp
      have fo: "?f x = improvement_score (history c ! x)" if "x \<noteq> j" for x
        unfolding th using that by simp
      have "py_max_key ?f i is = j"
      proof (rule py_max_key_retained)
        show "sorted_wrt (<) (i # is)" using optimize_filter_sorted [of ts cons "history c"] t by simp
        show "j \<in> set (i # is)" using jm t by simp
        show "\<forall>x \<in> set (i # is). x < j \<longrightarrow> ?f x < ?f j"
        proof (intro ballI impI)
          fix x assume "x \<in> set (i # is)" "x < j"
          with bounds t fo [of x] show "?f x < ?f j" unfolding fj by auto
        qed
        show "\<forall>x \<in> set (i # is). j < x \<longrightarrow> ?f x \<le> ?f j"
        proof (intro ballI impI)
          fix x assume "x \<in> set (i # is)" "j < x"
          with bounds t fo [of x] show "?f x \<le> ?f j" unfolding fj by auto
        qed
      qed
      with inr t show "r = Some j" by simp
    qed
    show "history c' = thresholded thr c \<and>
      (?temp = [] \<longrightarrow> r = None \<and> \<not> expandable c' \<and> selected_state c' = selected_state c) \<and>
      (?temp \<noteq> [] \<longrightarrow>
         (\<exists>k. r = Some k \<and> selected_state c' = Some (int k) \<and> k \<in> set ?temp \<and>
              (\<forall>i \<in> set ?temp. improvement_score (history c' ! i) \<le> improvement_score (history c' ! k)) \<and>
              (expandable c' \<longleftrightarrow> expandable c \<and> \<not> (stop \<and> selected_state c = Some (int k))))) \<and>
      (\<forall>j. selected_state c = Some (int j) \<and> j \<in> set ?temp \<and>
           (\<forall>i \<in> set ?temp.
               (i < j \<longrightarrow> improvement_score (history c ! i) < thr) \<and>
               (j < i \<longrightarrow> improvement_score (history c ! i) \<le> thr)) \<longrightarrow>
           r = Some j)"
      by (rule conjI [OF p1 conjI [OF p2 conjI [OF p3 p4]]])
  qed
qed

theorem optimize_selection_witness:
  "\<exists>c'. optimize True None None (1 / 100) demo_seed = Inr (c', Some 0) \<and>
        selected_state c' = Some 0 \<and> \<not> expandable c'"
proof -
  have sel: "selected_state demo_seed = Some (int 0)"
    and filt: "optimize_filter None None (history demo_seed) = [0]"
    and ctx: "\<exists>s. context_of demo_seed = Inr s"
    by (simp_all add: demo_seed_def init_candidate_def optimize_filter_def context_of_def
        py_get_def py_pos_def)
  note inst = optimize_selection [of demo_seed True None None "1 / 100"]
  from inst ctx obtain c' r where res: "optimize True None None (1 / 100) demo_seed = Inr (c', r)"
    by blast
  with inst sel filt have r: "r = Some 0" by auto
  from inst res filt r sel have "selected_state c' = Some 0 \<and> \<not> expandable c'"
    by auto
  with res r show ?thesis by blast
qed

text \<open>
  The claim as it was stated fails where the filters leave the selected State out, as
  they do when a Candidate is made to give up a unit: with unit 3 forbidden the
  selection moves from the window 2 to 3 back to the seed State, although no filtered
  State has an improvement score above the threshold.
\<close>

theorem optimize_default_counterexample:
  "case optimize False None (Some [3]) (1 / 100) demo_grown of
     Inl e \<Rightarrow> False
   | Inr (c', r) \<Rightarrow>
       selected_state demo_grown = Some 1 \<and> selected_state c' = Some 0 \<and>
       list_all (\<lambda>i. improvement_score (history c' ! i) \<le> 1 / 100)
         (optimize_filter None (Some [3]) (history demo_grown))"
  by code_simp

subsection \<open>The selected index after pruning\<close>

text \<open>
  Claim C9, at the input where the code breaks it. The Candidate has two States and
  selects the second. \<open>clear_history\<close> with the exception list \<open>[-1]\<close> keeps the
  selected State only, but counts \<open>-1\<close> among the preserved indices when it
  recomputes the selection: the selected index stays 1 in a history of length 1 and
  no longer resolves.
\<close>

theorem clear_history_negative_exception:
  "context_of demo_grown = Inr (history demo_grown ! 1) \<and>
   (case clear_history [- 1] demo_grown of
      Inl e \<Rightarrow> False
    | Inr c' \<Rightarrow> length (history c') = 1 \<and> selected_state c' = Some 1 \<and>
               context_of c' = Inl IndexError)"
  by code_simp

section \<open>Properties of the Cluster operations\<close>

subsection \<open>Loops that may raise, and sorting\<close>

lemma map_err_Inr: "map_err f xs = Inr ys \<longleftrightarrow> length ys = length xs \<and> (\<forall>i < length xs. f (xs ! i) = Inr (ys ! i))"
proof (induction xs arbitrary: ys)
  case Nil
  then show ?case by auto
next
  case (Cons x xs)
  show ?case
  proof (cases ys)
    case Nil
    then show ?thesis by (auto simp: bind_err_Inr_iff)
  next
    case (Cons y ys')
    then show ?thesis
      using Cons.IH [of ys'] by (auto simp: bind_err_Inr_iff nth_Cons split: nat.splits)
  qed
qed

lemma map_err_Inr_set: "map_err f xs = Inr ys \<Longrightarrow> \<forall>p \<in> set (zip ys xs). f (snd p) = Inr (fst p)"
  by (auto simp: map_err_Inr set_zip)

lemma map_err_zip_id:
  assumes "\<forall>p \<in> set ps. f (snd p) = Inr (fst p)"
  shows "map_err f (map snd ps) = Inr (map fst ps)"
  using assms by (induction ps) auto

lemma map_err_total:
  assumes "\<forall>x \<in> set xs. \<exists>y. f x = Inr y"
  shows "\<exists>ys. map_err f xs = Inr ys"
  using assms by (induction xs) (auto simp: bind_err_Inr_iff)

lemma zip_map_fst_snd: "zip (map fst ps) (map snd ps) = ps"
  by (induction ps) auto

lemma sort_key_twice: "sort_key f (sort_key f xs) = sort_key f xs"
  by (rule sort_key_id_if_sorted) simp

subsection \<open>Re-ranking\<close>

lemma rerank_decorated:
  assumes "rerank_candidates cs = Inr cs'"
  shows "\<exists>ps. cs' = map snd (rev (sort_key fst (rev ps))) \<and> map snd ps = cs \<and>
              (\<forall>p \<in> set ps. rerank_key (snd p) = Inr (fst p))"
proof -
  from assms obtain ks where ks: "map_err rerank_key cs = Inr ks"
    and cs': "cs' = map snd (rev (sort_key fst (rev (zip ks cs))))"
    by (auto simp: rerank_candidates_def py_sorted_reverse_def bind_err_Inr_iff)
  from ks have "length ks = length cs" by (simp add: map_err_Inr)
  then have "map snd (zip ks cs) = cs" by simp
  with cs' map_err_Inr_set [OF ks] show ?thesis by blast
qed

lemma rerank_idempotent_and_ordered_aux:
  assumes "rerank_candidates cs = Inr cs'"
  shows "rerank_candidates cs' = Inr cs' \<and> sorted_wrt ranks_before cs' \<and> mset cs' = mset cs"
proof -
  from rerank_decorated [OF assms] obtain ps where
    cs': "cs' = map snd (rev (sort_key fst (rev ps)))" and cs: "map snd ps = cs"
    and keys: "\<forall>p \<in> set ps. rerank_key (snd p) = Inr (fst p)"
    by blast
  define R where "R = rev (sort_key fst (rev ps))"
  have setR: "set R = set ps" by (simp add: R_def)
  with keys have keysR: "\<forall>p \<in> set R. rerank_key (snd p) = Inr (fst p)" by simp
  have "map_err rerank_key cs' = Inr (map fst R)"
    unfolding cs' R_def [symmetric] using keysR by (rule map_err_zip_id)
  moreover have "rev (sort_key fst (rev (zip (map fst R) (map snd R)))) = R"
    by (simp add: zip_map_fst_snd R_def sort_key_twice)
  ultimately have idem: "rerank_candidates cs' = Inr cs'"
    by (simp add: rerank_candidates_def py_sorted_reverse_def cs' R_def [symmetric])
  have "sorted (map fst (sort_key fst (rev ps)))" by simp
  then have "sorted (rev (map fst R))" by (simp add: R_def rev_map)
  then have desc: "sorted_wrt (\<lambda>x y. y \<le> x) (map fst R)"
    by (simp add: sorted_wrt_rev)
  have "sorted_wrt ranks_before (map snd R)"
    unfolding sorted_wrt_map
  proof (rule sorted_wrt_mono_rel [OF _ desc [unfolded sorted_wrt_map]])
    fix p q assume "p \<in> set R" "q \<in> set R" "fst q \<le> fst p"
    with keysR have "rerank_key (snd p) = Inr (fst p)" "rerank_key (snd q) = Inr (fst q)" by auto
    with \<open>fst q \<le> fst p\<close>
    show "ranks_before (snd p) (snd q)"
      by (cases p; cases q)
        (auto simp: ranks_before_def rerank_key_def bind_err_Inr_iff less_eq_prod_def)
  qed
  then have ord: "sorted_wrt ranks_before cs'" by (simp add: cs' R_def)
  have "mset cs' = mset (map snd ps)"
    unfolding cs' by (simp add: R_def [symmetric] setR) (metis R_def mset_map mset_rev mset_sort)
  with cs idem ord show ?thesis by simp
qed

lemma resolves_iff: "resolves c \<longleftrightarrow> (\<exists>s. context_of c = Inr s \<and> chains s \<noteq> [])"
  by (auto simp: resolves_def split: sum.splits)

lemma rerank_total:
  assumes "\<forall>c \<in> set cs. \<exists>s. context_of c = Inr s"
  shows "\<exists>cs'. rerank_candidates cs = Inr cs'"
proof -
  from assms have "\<forall>c \<in> set cs. \<exists>k. rerank_key c = Inr k"
    by (auto simp: rerank_key_def candidate_score_def bind_err_Inr_iff)
  from map_err_total [OF this] show ?thesis
    by (auto simp: rerank_candidates_def py_sorted_reverse_def)
qed

text \<open>
  Claim C8. \<open>rerank_candidates\<close> returns whenever every Candidate's selection
  resolves. When it returns, calling it again on the result returns the same list; the
  result is in the order of \<open>ranks_before\<close> (score descending, the lower anchor index
  first among equal scores); and it holds the same Candidates as the input.
\<close>

theorem rerank_idempotent_and_ordered:
  "((\<forall>c \<in> set cs. \<exists>s. context_of c = Inr s) \<longrightarrow> (\<exists>cs'. rerank_candidates cs = Inr cs')) \<and>
   (\<forall>cs'. rerank_candidates cs = Inr cs' \<longrightarrow>
      rerank_candidates cs' = Inr cs' \<and> sorted_wrt ranks_before cs' \<and> mset cs' = mset cs)"
  using rerank_total rerank_idempotent_and_ordered_aux by blast

theorem rerank_idempotent_and_ordered_witness:
  "\<exists>cs'. rerank_candidates demo_cluster = Inr cs' \<and> rerank_candidates cs' = Inr cs' \<and>
     sorted_wrt ranks_before cs' \<and> map (\<lambda>c. chain_index (chain c)) cs' = [2, 1, 4]"
proof -
  have "\<forall>c \<in> set demo_cluster. \<exists>s. context_of c = Inr s"
    by (simp add: demo_cluster_def init_candidate_def context_of_def py_get_def py_pos_def)
  with rerank_idempotent_and_ordered [of demo_cluster]
  obtain cs' where cs': "rerank_candidates demo_cluster = Inr cs'" by blast
  from this rerank_idempotent_and_ordered [of demo_cluster]
  have again: "rerank_candidates cs' = Inr cs' \<and> sorted_wrt ranks_before cs'" by blast
  have "case rerank_candidates demo_cluster of Inl e \<Rightarrow> False
     | Inr r \<Rightarrow> map (\<lambda>c. chain_index (chain c)) r = [2, 1, 4]"
    by code_simp
  with cs' have "map (\<lambda>c. chain_index (chain c)) cs' = [2, 1, 4]" by simp
  with cs' again show ?thesis by (intro exI [of _ cs']) simp
qed

subsection \<open>Merging\<close>

lemma py_sorted_total:
  assumes "\<forall>x \<in> set xs. \<exists>k. f x = Inr k"
  shows "\<exists>ys. py_sorted f xs = Inr ys \<and> set ys = set xs \<and> length ys = length xs"
proof -
  from map_err_total [OF assms] obtain ks where ks: "map_err f xs = Inr ks" ..
  then have len: "length ks = length xs" by (simp add: map_err_Inr)
  have "map snd (zip ks xs) = xs" using len by simp
  then have "set (map snd (zip ks xs)) = set xs" by simp
  then have "set (map snd (sort_key fst (zip ks xs))) = set xs" by simp
  with ks len show ?thesis by (simp add: py_sorted_def)
qed

lemma resolves_first_index:
  assumes "resolves c"
  shows "\<exists>k. candidate_first_index c = Inr k"
proof -
  from assms obtain s where s: "context_of c = Inr s" "chains s \<noteq> []"
    by (auto simp: resolves_iff)
  then obtain x xs where "chains s = x # xs" by (cases "chains s") auto
  with s show ?thesis
    by (simp add: candidate_first_index_def state_first_index_def py_first_def)
qed

lemma resolves_score: "resolves c \<Longrightarrow> \<exists>k. candidate_score c = Inr k"
  by (auto simp: resolves_iff candidate_score_def bind_err_Inr_iff)

lemma resolves_bounds:
  assumes "resolves c"
  shows "\<exists>a b. candidate_range_bounds c = Inr (a, b)"
proof -
  from assms obtain s where s: "context_of c = Inr s" "chains s \<noteq> []"
    by (auto simp: resolves_iff)
  then obtain x xs where "chains s = x # xs" by (cases "chains s") auto
  with s show ?thesis
    by (simp add: candidate_range_bounds_def state_first_index_def state_last_index_def
        py_first_def py_last_def)
qed

lemma resolves_update_context:
  assumes "resolves c" and "\<And>s. chains s \<noteq> [] \<Longrightarrow> chains (f s) \<noteq> []"
  shows "\<exists>c'. update_context f c = Inr c' \<and> resolves c'"
proof -
  from assms(1) obtain k where k: "py_pos (history c) (selected_state c) = Inr k"
    and ne: "chains (history c ! k) \<noteq> []"
    by (auto simp: resolves_iff context_of_def py_get_Inr_iff)
  have lt: "k < length (history c)" using k by (rule py_pos_less)
  let ?c' = "c\<lparr>history := (history c)[k := f (history c ! k)]\<rparr>"
  have "py_pos (history ?c') (selected_state ?c') = py_pos (history c) (selected_state c)"
    by (cases "selected_state c") (simp_all add: py_pos_def)
  with k have "py_pos (history ?c') (selected_state ?c') = Inr k" by simp
  with lt ne assms(2) have "resolves ?c'"
    by (simp add: resolves_iff context_of_def py_get_Inr_iff)
  with k show ?thesis by (simp add: update_context_def)
qed

lemma merge_step_total:
  assumes "resolves prev" and "resolves c"
  shows "\<exists>kept prev'. merge_step threshold prev c = Inr (kept, prev') \<and> resolves prev' \<and>
           (\<forall>k. kept = Some k \<longrightarrow> resolves k)"
proof -
  from assms obtain ps sc cstart cstop pstart pstop cctx where
    v: "candidate_score prev = Inr ps" "candidate_score c = Inr sc"
       "candidate_range_bounds c = Inr (cstart, cstop)"
       "candidate_range_bounds prev = Inr (pstart, pstop)" "context_of c = Inr cctx"
    using resolves_score [of prev] resolves_score [of c] resolves_bounds [of c]
      resolves_bounds [of prev] by (auto simp: resolves_iff)
  from resolves_update_context [OF assms(1), of "\<lambda>s. s\<lparr>chains := chains s @ more\<rparr>" for more]
  have upd: "\<exists>c'. update_context (\<lambda>s. s\<lparr>chains := chains s @ more\<rparr>) prev = Inr c' \<and> resolves c'" for more
    by simp
  obtain p1 where p1: "update_context (\<lambda>s. s\<lparr>chains := chains s @
        py_slice_from (chains cctx) (int (length (chains cctx)) - (cstop - pstop))\<rparr>) prev = Inr p1"
      "resolves p1"
    using upd by blast
  obtain p2 where p2: "update_context (\<lambda>s. s\<lparr>chains := chains s @ chains cctx\<rparr>) prev = Inr p2"
      "resolves p2"
    using upd by blast
  from v p1 p2 assms show ?thesis
    by (simp add: merge_step_def Let_def)
qed

lemma merge_scan_total:
  assumes "resolves prev" and "\<forall>c \<in> set keep. resolves c" and "\<forall>c \<in> set cs. resolves c"
  shows "\<exists>out. merge_scan threshold prev keep cs = Inr out \<and> (\<forall>c \<in> set out. resolves c)"
  using assms
proof (induction cs arbitrary: prev keep)
  case Nil
  then show ?case by simp
next
  case (Cons c cs)
  from merge_step_total [of prev c threshold] Cons.prems obtain kept prev' where
    st: "merge_step threshold prev c = Inr (kept, prev')" and r: "resolves prev'"
    and k: "\<forall>k. kept = Some k \<longrightarrow> resolves k"
    by auto
  have "\<forall>c \<in> set (case kept of None \<Rightarrow> keep | Some k \<Rightarrow> keep @ [k]). resolves c"
    using Cons.prems(2) k by (cases kept) auto
  from Cons.IH [OF r this] Cons.prems(3) st show ?case by simp
qed

lemma rescore_total:
  assumes "\<forall>c \<in> set cs. resolves c"
  shows "\<exists>out. rescore_candidates ev cs = Inr out \<and> (\<forall>c \<in> set out. resolves c)"
proof -
  have each: "\<forall>c \<in> set cs. \<exists>c'. update_context (\<lambda>s. s\<lparr>score := ev (chains s)\<rparr>) c = Inr c'"
    using assms resolves_update_context [of _ "\<lambda>s. s\<lparr>score := ev (chains s)\<rparr>"] by auto
  from map_err_total [OF this] obtain out where
    out: "map_err (update_context (\<lambda>s. s\<lparr>score := ev (chains s)\<rparr>)) cs = Inr out" ..
  have "resolves c'" if "c' \<in> set out" for c'
  proof -
    from that obtain i where "i < length out" "out ! i = c'" by (auto simp: in_set_conv_nth)
    with out have "i < length cs" "update_context (\<lambda>s. s\<lparr>score := ev (chains s)\<rparr>) (cs ! i) = Inr c'"
      by (auto simp: map_err_Inr)
    with resolves_update_context [of "cs ! i" "\<lambda>s. s\<lparr>score := ev (chains s)\<rparr>"] assms
    show ?thesis by auto
  qed
  with out show ?thesis by (auto simp: rescore_candidates_def)
qed

text \<open>
  Claim C10. On an empty candidates list \<open>merge_candidates\<close> raises IndexError (it
  reads \<open>self.candidates[0]\<close>). On a non-empty list of Candidates that keep the
  invariants of the data model (the selection resolves, to a State with a chain) every
  access of the scan, of the rescoring and of the re-ranking is in bounds: the
  operation returns a list.
\<close>

theorem merge_candidates_needs_a_candidate:
  "merge_candidates ev threshold [] = Inl IndexError \<and>
   (cs \<noteq> [] \<and> (\<forall>c \<in> set cs. resolves c) \<longrightarrow> (\<exists>out. merge_candidates ev threshold cs = Inr out))"
proof (intro conjI impI)
  show "merge_candidates ev threshold [] = Inl IndexError"
    by (simp add: merge_candidates_def py_sorted_def)
next
  assume a: "cs \<noteq> [] \<and> (\<forall>c \<in> set cs. resolves c)"
  then have "\<forall>c \<in> set cs. \<exists>k. candidate_first_index c = Inr k"
    using resolves_first_index by blast
  from py_sorted_total [OF this] obtain srt where
    srt: "py_sorted candidate_first_index cs = Inr srt" "set srt = set cs" "length srt = length cs"
    by blast
  with a obtain prev rest where pr: "srt = prev # rest" by (cases srt) auto
  with srt a have "resolves prev" "\<forall>c \<in> set rest. resolves c" by auto
  from merge_scan_total [OF this(1) _ this(2), of "[]" threshold] obtain keep where
    keep: "merge_scan threshold prev [] rest = Inr keep" "\<forall>c \<in> set keep. resolves c"
    by auto
  from rescore_total [OF keep(2), of ev] obtain sc where
    sc: "rescore_candidates ev keep = Inr sc" "\<forall>c \<in> set sc. resolves c"
    by blast
  then have "\<forall>c \<in> set sc. \<exists>s. context_of c = Inr s" by (auto simp: resolves_iff)
  from rerank_total [OF this] obtain out where "rerank_candidates sc = Inr out" ..
  with srt pr keep sc show "\<exists>out. merge_candidates ev threshold cs = Inr out"
    by (simp add: merge_candidates_def)
qed

theorem merge_candidates_needs_a_candidate_witness:
  "\<exists>out. merge_candidates demo_ev 2 demo_cluster = Inr out"
proof -
  have "demo_cluster \<noteq> [] \<and> (\<forall>c \<in> set demo_cluster. resolves c)"
    by (simp add: demo_cluster_def resolves_def init_candidate_def context_of_def py_get_def
        py_pos_def)
  with merge_candidates_needs_a_candidate [of demo_ev 2 demo_cluster] show ?thesis
    by blast
qed

section \<open>Properties of the arbitration engine\<close>

subsection \<open>Skip rules\<close>







subsection \<open>The two-sided conflict\<close>

lemma first_with_timestamp_least:
  assumes "first_with_timestamp ts c = Inr k"
  shows "k < length (history c) \<and> timestamp (history c ! k) = ts \<and>
         (\<forall>i < k. timestamp (history c ! i) \<noteq> ts)"
proof -
  let ?P = "\<lambda>i. timestamp (history c ! i) = ts"
  from assms obtain rest where "filter ?P [0..<length (history c)] = k # rest"
    by (auto simp: first_with_timestamp_def py_first_def split: list.splits)
  then obtain us vs where split: "[0..<length (history c)] = us @ k # vs"
    and before: "\<forall>u \<in> set us. \<not> ?P u" and k: "?P k"
    by (auto simp: filter_eq_Cons_iff)
  from split have mem: "k \<in> set [0..<length (history c)]" by simp
  have "[0..<length (history c)] ! length us = k" unfolding split by simp
  moreover have "length us < length [0..<length (history c)]" unfolding split by simp
  ultimately have len: "length us = k" by simp
  have "i \<in> set us" if "i < k" for i
  proof -
    from that len have "i < length us" by simp
    then have "us ! i = [0..<length (history c)] ! i" unfolding split by (simp add: nth_append)
    also have "\<dots> = i" using that mem by simp
    finally show ?thesis using \<open>i < length us\<close> by (metis nth_mem)
  qed
  with before k mem show ?thesis by auto
qed

lemma first_with_timestamp_total:
  assumes "context_of c = Inr ctx" and "timestamp ctx = ts"
  shows "\<exists>k. first_with_timestamp ts c = Inr k"
proof -
  from assms obtain p where "p < length (history c)" "timestamp (history c ! p) = ts"
    by (auto simp: context_of_def py_get_Inr_iff dest: py_pos_less)
  then have "p \<in> set (filter (\<lambda>i. timestamp (history c ! i) = ts) [0..<length (history c)])"
    by simp
  then show ?thesis
    by (cases "filter (\<lambda>i. timestamp (history c ! i) = ts) [0..<length (history c)]")
      (auto simp: first_with_timestamp_def py_first_def)
qed

lemma conflict_step_two:
  assumes "py_nth (cands st) pos = Inr c" and "context_of c = Inr ctx"
    and "forbidden_chains st ctx = [f1, f2]"
    and "forbids_owner st f1 = Inr o1" and "forbids_owner st f2 = Inr o2"
    and "py_nth (cands st) o1 = Inr r1" and "py_nth (cands st) o2 = Inr r2"
    and "candidate_score c = Inr sc" and "candidate_score r1 = Inr s1"
    and "candidate_score r2 = Inr s2"
  shows "conflict_step threshold ts pos st =
     (if s1 < sc \<and> s2 < sc
      then Inr (Break (set_forbids f2 pos (set_forbids f1 pos
                  (mark_for_deletion o2 (mark_for_deletion o1 st)))))
      else bind_err (first_with_timestamp ts c) (\<lambda>k.
             Inr (Break (set_candidate pos
                    (c\<lparr>selected_state := Some (int k), expandable := False\<rparr>) st))))"
  using assms by (simp add: conflict_step_def)

text \<open>
  The branch for two contested units. Let the selected State of the Candidate at
  \<open>pos\<close> hold two contested units \<open>f1\<close> and \<open>f2\<close>, claimed this round by the
  Candidates at \<open>o1\<close> and \<open>o2\<close>. If the Candidate's score is strictly higher than
  both rivals' scores, the loop ends with both rivals marked for deletion and both
  units owned by the Candidate, which is itself unchanged. Otherwise (the selected
  State carrying the round's timestamp, as it does after \<open>optimize\<close>) the loop ends
  with the Candidate's selection set to the first State of the history that carries
  the round's timestamp, and with the Candidate not expandable; no mark and no claim
  changes, so it is not deleted.
\<close>

lemma two_sided_conflict_branch:
  assumes "py_nth (cands st) pos = Inr c" and "context_of c = Inr ctx"
    and "forbidden_chains st ctx = [f1, f2]"
    and "forbids_owner st f1 = Inr o1" and "forbids_owner st f2 = Inr o2"
    and "py_nth (cands st) o1 = Inr r1" and "py_nth (cands st) o2 = Inr r2"
    and "candidate_score c = Inr sc" and "candidate_score r1 = Inr s1"
    and "candidate_score r2 = Inr s2"
    and "length (marked_for_deletion st) = length (cands st)"
  shows "(s1 < sc \<and> s2 < sc \<longrightarrow>
            (\<exists>st'. conflict_loop (Suc fuel) threshold ts pos st = Some (Inr st') \<and>
               marked_for_deletion st' ! o1 \<and> marked_for_deletion st' ! o2 \<and>
               map_of (current_round_forbids st') (chain_index f1) = Some pos \<and>
               map_of (current_round_forbids st') (chain_index f2) = Some pos \<and>
               cands st' = cands st)) \<and>
         (\<not> (s1 < sc \<and> s2 < sc) \<and> timestamp ctx = ts \<longrightarrow>
            (\<exists>st' k. conflict_loop (Suc fuel) threshold ts pos st = Some (Inr st') \<and>
               first_with_timestamp ts c = Inr k \<and>
               k < length (history c) \<and> timestamp (history c ! k) = ts \<and>
               (\<forall>i < k. timestamp (history c ! i) \<noteq> ts) \<and>
               cands st' = (cands st)[pos := c\<lparr>selected_state := Some (int k), expandable := False\<rparr>] \<and>
               marked_for_deletion st' = marked_for_deletion st \<and>
               current_round_forbids st' = current_round_forbids st \<and>
               seen_chains st' = seen_chains st))"
proof (intro conjI impI)
  note step = conflict_step_two [OF assms(1-10), of threshold ts]
  assume win: "s1 < sc \<and> s2 < sc"
  let ?st' = "set_forbids f2 pos (set_forbids f1 pos (mark_for_deletion o2 (mark_for_deletion o1 st)))"
  from step win have "conflict_loop (Suc fuel) threshold ts pos st = Some (Inr ?st')" by simp
  moreover from assms(6,7,11) have "o1 < length (marked_for_deletion st)" "o2 < length (marked_for_deletion st)"
    by (auto simp: py_nth_def split: if_splits)
  then have "marked_for_deletion ?st' ! o1 \<and> marked_for_deletion ?st' ! o2"
    by (simp add: set_forbids_def mark_for_deletion_def nth_list_update)
  moreover have "map_of (current_round_forbids ?st') (chain_index f1) = Some pos \<and>
      map_of (current_round_forbids ?st') (chain_index f2) = Some pos"
    by (simp add: set_forbids_def mark_for_deletion_def update_conv')
  moreover have "cands ?st' = cands st"
    by (simp add: set_forbids_def mark_for_deletion_def)
  ultimately show "\<exists>st'. conflict_loop (Suc fuel) threshold ts pos st = Some (Inr st') \<and>
               marked_for_deletion st' ! o1 \<and> marked_for_deletion st' ! o2 \<and>
               map_of (current_round_forbids st') (chain_index f1) = Some pos \<and>
               map_of (current_round_forbids st') (chain_index f2) = Some pos \<and>
               cands st' = cands st"
    by blast
next
  note step = conflict_step_two [OF assms(1-10), of threshold ts]
  assume lose: "\<not> (s1 < sc \<and> s2 < sc) \<and> timestamp ctx = ts"
  with first_with_timestamp_total [OF assms(2)] obtain k where k: "first_with_timestamp ts c = Inr k"
    by blast
  let ?st' = "set_candidate pos (c\<lparr>selected_state := Some (int k), expandable := False\<rparr>) st"
  from step lose k have "conflict_loop (Suc fuel) threshold ts pos st = Some (Inr ?st')" by simp
  with k first_with_timestamp_least [OF k]
  show "\<exists>st' k. conflict_loop (Suc fuel) threshold ts pos st = Some (Inr st') \<and>
               first_with_timestamp ts c = Inr k \<and>
               k < length (history c) \<and> timestamp (history c ! k) = ts \<and>
               (\<forall>i < k. timestamp (history c ! i) \<noteq> ts) \<and>
               cands st' = (cands st)[pos := c\<lparr>selected_state := Some (int k), expandable := False\<rparr>] \<and>
               marked_for_deletion st' = marked_for_deletion st \<and>
               current_round_forbids st' = current_round_forbids st \<and>
               seen_chains st' = seen_chains st"
    by (intro exI [of _ ?st'] exI [of _ k]) (simp add: set_candidate_def)
qed

lemma two_sided_conflict_branch_example:
  "\<exists>st'. conflict_loop 1 (1 / 100) 0 2 squeeze_state = Some (Inr st') \<and>
     selected_state (cands st' ! 2) = Some 0 \<and> \<not> expandable (cands st' ! 2) \<and>
     marked_for_deletion st' = [False, False, False]"
proof -
  let ?c = "cands squeeze_state ! 2"
  let ?ctx = "history ?c ! 1"
  have a: "py_nth (cands squeeze_state) 2 = Inr ?c" "context_of ?c = Inr ?ctx"
    "forbidden_chains squeeze_state ?ctx = [unit_at 1, unit_at 3]"
    "forbids_owner squeeze_state (unit_at 1) = Inr 0" "forbids_owner squeeze_state (unit_at 3) = Inr 1"
    "py_nth (cands squeeze_state) 0 = Inr (cands squeeze_state ! 0)"
    "py_nth (cands squeeze_state) 1 = Inr (cands squeeze_state ! 1)"
    "candidate_score ?c = Inr 3" "candidate_score (cands squeeze_state ! 0) = Inr 5"
    "candidate_score (cands squeeze_state ! 1) = Inr 4"
    "length (marked_for_deletion squeeze_state) = length (cands squeeze_state)"
    by code_simp+
  have b: "\<not> ((5::rat) < 3 \<and> (4::rat) < 3) \<and> timestamp ?ctx = 0" by code_simp
  from two_sided_conflict_branch [OF a, of 0 "1 / 100" 0] b
  obtain st' k where r: "conflict_loop 1 (1 / 100) 0 2 squeeze_state = Some (Inr st')"
    "first_with_timestamp 0 ?c = Inr k" "\<forall>i < k. timestamp (history ?c ! i) \<noteq> 0"
    "cands st' = (cands squeeze_state)[2 := ?c\<lparr>selected_state := Some (int k), expandable := False\<rparr>]"
    "marked_for_deletion st' = marked_for_deletion squeeze_state"
    by auto
  have "timestamp (history ?c ! 0) = 0" by code_simp
  with r(3) have "k = 0" by (cases k) auto
  with r show ?thesis
    by (intro exI [of _ st']) (simp add: squeeze_state_def)
qed

text \<open>
  Claim C5, at an input where the code breaks it. In the second round of the run on
  the four seeds, the Candidate anchored at unit 3 (position 3) starts from the window
  2 to 3 and keeps it in \<open>optimize\<close>. Unit 2 is claimed by the Candidate at position
  1, which scores higher, so the one-sided branch deletes that State from the history
  and the window 1 to 3 is selected. It holds two contested units, claimed by two
  different Candidates of higher priority: unit 1 by the Candidate at position 2
  (score 11) and unit 2 by the Candidate at position 1 (score 12). The Candidate
  (score 6) beats neither; the two-sided branch takes the first State that carries the
  round's timestamp, which is now the window 1 to 3 itself: the Candidate is frozen on
  the contested window and not on its round-start State, which is no longer in the
  history. It is not marked for deletion.
\<close>

theorem two_sided_revert_after_pop:
  "case (pinch_round, pinch_before) of
     (Some st0, Some st) \<Rightarrow>
       selected_units (cands st0 ! 3) = [2, 3] \<and> selected_units (cands st ! 3) = [2, 3] \<and>
       (case conflict_step (1 / 100) 1 3 st of
          Inr (Again st1) \<Rightarrow>
            selected_units (cands st1 ! 3) = [1, 2, 3] \<and>
            forbidden_chains st1 (history (cands st1 ! 3) ! 3) = [unit_at 1, unit_at 2] \<and>
            forbids_owner st1 (unit_at 1) = Inr 2 \<and> forbids_owner st1 (unit_at 2) = Inr 1 \<and>
            candidate_score (cands st1 ! 3) = Inr 6 \<and>
            candidate_score (cands st1 ! 2) = Inr 11 \<and> candidate_score (cands st1 ! 1) = Inr 12 \<and>
            (case conflict_step (1 / 100) 1 3 st1 of
               Inr (Break st2) \<Rightarrow>
                 selected_units (cands st2 ! 3) = [1, 2, 3] \<and> \<not> expandable (cands st2 ! 3) \<and>
                 list_all (\<lambda>s. map chain_index (chains s) \<noteq> [2, 3]) (history (cands st2 ! 3)) \<and>
                 marked_for_deletion st2 = [False, False, False, False]
             | _ \<Rightarrow> False)
        | _ \<Rightarrow> False)
   | _ \<Rightarrow> False"
  by code_simp

text \<open>The run ends after three rounds with that window selected.\<close>

lemma pinch_run:
  "case context_expansion_generator 5 pinch_ev doc8 (1 / 100) pinch_cluster of
     Some (Inr (final, n)) \<Rightarrow>
       map selected_units final = [[4, 5, 6], [2], [1], [1, 2, 3]] \<and> n = 3
   | _ \<Rightarrow> False"
  by code_simp

subsection \<open>Overlap after convergence\<close>

text \<open>
  Claim C1, at an input where the code breaks it. The engine converges after three
  rounds on the three seed Candidates of \<open>overlap_cluster\<close>, and two survivors hold
  unit 2: the Candidate anchored at unit 1 selects the window 1 to 2, the one anchored
  at unit 3 the window 2 to 3. (In the second round the first Candidate takes unit 4;
  the third is made to choose again and falls back on the window 2 to 3, which is
  checked against the units claimed so far only; the second then claims units 1 and 2;
  the third, squeezed, is frozen on its round-start State without a check.)
\<close>

theorem arbitration_leaves_overlap:
  "case context_expansion_generator 5 overlap_ev doc8 (1 / 100) overlap_cluster of
     Some (Inr (final, n)) \<Rightarrow> map selected_units final = [[4, 5, 6], [1, 2], [2, 3]] \<and> n = 3
   | _ \<Rightarrow> False"
  by code_simp

subsection \<open>Termination\<close>

lemma spin_cluster_merged: "merge_candidates spin_ev 2 spin_seeds = Inr spin_cluster"
  by code_simp

lemma spin_first:
  "process_candidate 1 spin_ev doc8 (1 / 100) 0 None 0 (initial_round_state spin_cluster)
     = Some (Inr spin_state1)"
  by code_simp

lemma spin_second:
  "process_candidate 1 spin_ev doc8 (1 / 100) 0 None 1 spin_state1 = Some (Inr spin_state2)"
  by code_simp

lemma spin_third:
  "\<not> marked_for_deletion spin_state2 ! 2 \<and> expandable (cands spin_state2 ! 2) \<and>
   chain_index (chain (cands spin_state2 ! 2)) \<notin> seen_chains spin_state2 \<and>
   expand_and_select spin_ev doc8 (1 / 100) 0 (cands spin_state2 ! 2) = Inr spin_candidate"
  by code_simp

lemma spin_step:
  "conflict_step (1 / 100) 0 2 (set_candidate 2 spin_candidate spin_state2)
     = Inr (Again (set_candidate 2 spin_candidate spin_state2)) \<and>
   map chain_index (forbidden_chains (set_candidate 2 spin_candidate spin_state2)
      (history spin_candidate ! 3)) = [2, 6, 7] \<and> selected_state spin_candidate = Some 3"
  by code_simp


lemma conflict_loop_stuck:
  assumes "conflict_step threshold ts pos st = Inr (Again st)"
  shows "conflict_loop fuel threshold ts pos st = None"
  using assms by (induction fuel) simp_all

lemma conflict_loop_more_fuel:
  assumes "conflict_loop fuel threshold ts pos st = Some r"
  shows "conflict_loop (fuel + k) threshold ts pos st = Some r"
  using assms
proof (induction fuel arbitrary: st)
  case 0
  then show ?case by simp
next
  case (Suc fuel)
  show ?case
  proof (cases "conflict_step threshold ts pos st")
    case (Inl e)
    with Suc.prems show ?thesis by simp
  next
    case (Inr step)
    with Suc show ?thesis by (cases step) simp_all
  qed
qed

lemma process_candidate_more_fuel:
  assumes "process_candidate fuel ev doc threshold ts prev pos st = Some r"
  shows "process_candidate (fuel + k) ev doc threshold ts prev pos st = Some r"
proof -
  have loop: "conflict_loop (fuel + k) threshold ts pos s = conflict_loop fuel threshold ts pos s"
    if "conflict_loop fuel threshold ts pos s \<noteq> None" for s
    using that conflict_loop_more_fuel by fastforce
  show ?thesis
  proof (cases "marked_for_deletion st ! pos \<or> \<not> expandable (cands st ! pos) \<or>
                chain_index (chain (cands st ! pos)) \<in> seen_chains st")
    case True
    with assms show ?thesis by (auto simp: process_candidate_def Let_def)
  next
    case False
    show ?thesis
    proof (cases "expand_and_select ev doc threshold ts (cands st ! pos)")
      case (Inl e)
      with assms False show ?thesis by (simp add: process_candidate_def Let_def)
    next
      case (Inr c1)
      with assms False have "conflict_loop fuel threshold ts pos (set_candidate pos c1 st) \<noteq> None"
        by (auto simp: process_candidate_def Let_def split: option.splits)
      from loop [OF this] assms False Inr show ?thesis
        by (simp add: process_candidate_def Let_def)
    qed
  qed
qed

lemma spin_candidates: "[0..<length spin_cluster] = [0, 1, 2]"
  by code_simp

lemma spin_round:
  "process_candidates (Suc k) spin_ev doc8 (1 / 100) 0 None [0, 1, 2]
     (initial_round_state spin_cluster) = None"
proof -
  have one: "process_candidate (Suc k) spin_ev doc8 (1 / 100) 0 None 0
      (initial_round_state spin_cluster) = Some (Inr spin_state1)"
    using process_candidate_more_fuel [OF spin_first, of k] by simp
  have two: "process_candidate (Suc k) spin_ev doc8 (1 / 100) 0 None 1 spin_state1
      = Some (Inr spin_state2)"
    using process_candidate_more_fuel [OF spin_second, of k] by simp
  have "conflict_loop (Suc k) (1 / 100) 0 2 (set_candidate 2 spin_candidate spin_state2) = None"
    using spin_step by (intro conflict_loop_stuck) simp
  with spin_third
  have three: "process_candidate (Suc k) spin_ev doc8 (1 / 100) 0 None 2 spin_state2 = None"
    by (simp add: process_candidate_def Let_def)
  from one two three show ?thesis by simp
qed

text \<open>On an empty cluster the loop body runs once: one round is executed.\<close>

lemma empty_cluster_one_round:
  "context_expansion_generator (Suc fuel) ev doc threshold [] = Some (Inr ([], 1))"
  by (simp add: context_expansion_generator_def initial_round_state_def end_of_round_def
      surviving_def remove_duplicate_candidates_def rerank_candidates_def py_sorted_reverse_def)

text \<open>
  Claim C2, at an input where the code breaks it. On the cluster that
  \<open>merge_candidates\<close> makes of \<open>spin_seeds\<close> the engine does not return, whatever
  the fuel: in the first round the third Candidate grows on both sides into a window
  with three units that are claimed already (2, 6 and 7), and the inner loop has a
  branch for one and for two such units only.
\<close>

theorem arbitration_does_not_return:
  "\<forall>fuel. context_expansion_generator fuel spin_ev doc8 (1 / 100) spin_cluster = None"
proof
  fix fuel
  show "context_expansion_generator fuel spin_ev doc8 (1 / 100) spin_cluster = None"
  proof (cases fuel)
    case 0
    then show ?thesis by (simp add: context_expansion_generator_def)
  next
    case (Suc k)
    have "expansion_rounds (Suc k) (Suc k) spin_ev doc8 (1 / 100) 0 None 0 spin_cluster = None"
      by (simp only: expansion_rounds.simps spin_candidates spin_round option.case)
    with Suc show ?thesis
      by (simp only: context_expansion_generator_def option.case)
  qed
qed

end
